theory Spec2Isabelle
  imports Complex_Main
begin

section \<open>JavaScript values\<close>

text \<open>
  The extension exchanges JSON-like values between its contexts and keeps them in
  \<^verbatim>\<open>chrome.storage.sync\<close>. A value is \<^verbatim>\<open>undefined\<close>, \<^verbatim>\<open>null\<close>, a boolean, a number, a
  string, an array or a plain object. Numbers are the integers (counters, flags); a
  plain object is the list of its own properties. \<open>JBuiltin n\<close> is the member
  named \<open>n\<close> that every plain object inherits from \<^verbatim>\<open>Object.prototype\<close>: reading
  \<^verbatim>\<open>o['constructor']\<close> on an object literal yields the function \<^verbatim>\<open>Object\<close>, and
  reading \<^verbatim>\<open>o['__proto__']\<close> yields \<^verbatim>\<open>Object.prototype\<close> itself.
\<close>

datatype jsval =
    JUndefined
  | JNull
  | JBool bool
  | JNum int
  | JStr string
  | JArr "jsval list"
  | JObj "(string \<times> jsval) list"
  | JBuiltin string

text \<open>Truthiness, as tested by \<^verbatim>\<open>if (v)\<close>, \<^verbatim>\<open>!v\<close> and \<^verbatim>\<open>a || b\<close>.\<close>

fun js_truthy :: "jsval \<Rightarrow> bool" where
  "js_truthy JUndefined = False"
| "js_truthy JNull = False"
| "js_truthy (JBool b) = b"
| "js_truthy (JNum n) = (n \<noteq> 0)"
| "js_truthy (JStr s) = (s \<noteq> [])"
| "js_truthy (JArr xs) = True"
| "js_truthy (JObj ps) = True"
| "js_truthy (JBuiltin n) = True"

text \<open>\<^verbatim>\<open>a || b\<close>\<close>

definition js_or :: "jsval \<Rightarrow> jsval \<Rightarrow> jsval" where
  "js_or a b = (if js_truthy a then a else b)"

text \<open>\<^verbatim>\<open>a ?? b\<close>\<close>

definition js_nullish :: "jsval \<Rightarrow> jsval \<Rightarrow> jsval" where
  "js_nullish a b = (if a = JUndefined \<or> a = JNull then b else a)"

text \<open>The property names every plain object inherits from \<^verbatim>\<open>Object.prototype\<close>.\<close>

definition Object_prototype_names :: "string list" where
  "Object_prototype_names =
     [''constructor'', ''__defineGetter__'', ''__defineSetter__'', ''hasOwnProperty'',
      ''__lookupGetter__'', ''__lookupSetter__'', ''isPrototypeOf'',
      ''propertyIsEnumerable'', ''toString'', ''valueOf'', ''__proto__'',
      ''toLocaleString'']"

text \<open>
  \<^verbatim>\<open>o[k]\<close> on a plain object with own properties \<open>ps\<close> and prototype
  \<^verbatim>\<open>Object.prototype\<close>: the own property when there is one, else the inherited member,
  else \<^verbatim>\<open>undefined\<close>.
\<close>

definition obj_get :: "(string \<times> jsval) list \<Rightarrow> string \<Rightarrow> jsval" where
  "obj_get ps k =
     (case map_of ps k of
        Some v \<Rightarrow> v
      | None \<Rightarrow> if k \<in> set Object_prototype_names then JBuiltin k else JUndefined)"

text \<open>
  The own properties of an object are listed with the array indices first, in
  ascending order, and then the other names in the order of their creation. An array
  index is the decimal form, without leading zeros, of a number up to \<open>2^32 - 2\<close>.
\<close>

definition digit_val :: "char \<Rightarrow> nat option" where
  "digit_val c =
     (let n = (of_char c :: nat) in if 48 \<le> n \<and> n \<le> 57 then Some (n - 48) else None)"

fun digits_val :: "int \<Rightarrow> string \<Rightarrow> int option" where
  "digits_val acc [] = Some acc"
| "digits_val acc (c # cs) =
     (case digit_val c of None \<Rightarrow> None | Some d \<Rightarrow> digits_val (10 * acc + int d) cs)"

definition array_index :: "string \<Rightarrow> int option" where
  "array_index k =
     (case k of
        [] \<Rightarrow> None
      | c # cs \<Rightarrow>
          if c = CHR ''0'' \<and> cs \<noteq> [] then None
          else (case digits_val 0 k of
                  None \<Rightarrow> None
                | Some n \<Rightarrow> if n \<le> 4294967294 then Some n else None))"

text \<open>A new array index goes before the first property that is not a smaller index.\<close>

fun put_index :: "int \<Rightarrow> string \<Rightarrow> jsval \<Rightarrow> (string \<times> jsval) list \<Rightarrow> (string \<times> jsval) list" where
  "put_index n k v [] = [(k, v)]"
| "put_index n k v (p # ps) =
     (case array_index (fst p) of
        None \<Rightarrow> (k, v) # p # ps
      | Some m \<Rightarrow> if m < n then p # put_index n k v ps else (k, v) # p # ps)"

text \<open>The value of an existing property is replaced where it stands.\<close>

fun replace_prop :: "string \<Rightarrow> jsval \<Rightarrow> (string \<times> jsval) list \<Rightarrow> (string \<times> jsval) list" where
  "replace_prop k v [] = []"
| "replace_prop k v (p # ps) = (if fst p = k then (k, v) # ps else p # replace_prop k v ps)"

text \<open>Defining the own property \<open>k\<close> with value \<open>v\<close>.\<close>

definition alist_put :: "string \<Rightarrow> jsval \<Rightarrow> (string \<times> jsval) list \<Rightarrow> (string \<times> jsval) list" where
  "alist_put k v ps =
     (if map_of ps k \<noteq> None then replace_prop k v ps
      else case array_index k of
        None \<Rightarrow> ps @ [(k, v)]
      | Some n \<Rightarrow> put_index n k v ps)"

text \<open>
  An object being filled by assignments has its own properties and a prototype:
  \<^verbatim>\<open>Object.prototype\<close> for an object literal, until an assignment to \<^verbatim>\<open>__proto__\<close>
  replaces it by \<^verbatim>\<open>null\<close> or by another object.
\<close>

datatype proto = ObjectPrototype | NullPrototype | ValuePrototype jsval

type_synonym js_object = "(string \<times> jsval) list \<times> proto"

text \<open>
  Whether the assignment \<^verbatim>\<open>o['__proto__'] = v\<close> reaches the setter that
  \<^verbatim>\<open>Object.prototype\<close> provides: the object has no own property of that name, and
  neither has an object that was made its prototype. The values that become prototypes
  here come out of the store, so they are plain objects and arrays whose own prototype
  chain ends in \<^verbatim>\<open>Object.prototype\<close>.
\<close>

definition reaches_proto_setter :: "js_object \<Rightarrow> bool" where
  "reaches_proto_setter ob =
     (map_of (fst ob) ''__proto__'' = None \<and>
      (case snd ob of
         ObjectPrototype \<Rightarrow> True
       | NullPrototype \<Rightarrow> False
       | ValuePrototype x \<Rightarrow>
           (case x of JObj ps \<Rightarrow> map_of ps ''__proto__'' = None | _ \<Rightarrow> True)))"

text \<open>
  \<^verbatim>\<open>o[k] = v\<close>. For the name \<^verbatim>\<open>__proto__\<close>, when the setter is reached, no own
  property appears: the setter makes \<open>v\<close> the prototype when \<open>v\<close> is \<^verbatim>\<open>null\<close> or an
  object and does nothing otherwise. In every other case the own property \<open>k\<close> is
  defined: the properties found along the prototype chain are writable data properties.
\<close>

definition obj_assign :: "js_object \<Rightarrow> string \<Rightarrow> jsval \<Rightarrow> js_object" where
  "obj_assign ob k v =
     (if k = ''__proto__'' \<and> reaches_proto_setter ob
      then (case v of
              JNull \<Rightarrow> (fst ob, NullPrototype)
            | JObj ps \<Rightarrow> (fst ob, ValuePrototype v)
            | JArr xs \<Rightarrow> (fst ob, ValuePrototype v)
            | JBuiltin n \<Rightarrow>
                (fst ob, if n = ''__proto__'' then ObjectPrototype else ValuePrototype v)
            | _ \<Rightarrow> ob)
      else (alist_put k v (fst ob), snd ob))"

section \<open>AI service\<close>

subsection \<open>Confusion scoring\<close>

text \<open>The fields \<^verbatim>\<open>detectConfusion\<close> destructures from its argument.\<close>

record user_behavior =
  rewindCount :: int
  pauseCount :: int
  currentTimestamp :: real
  watchedSegments :: "real \<rightharpoonup> int"

record confusion_assessment =
  isConfused :: bool
  confusionScore :: int
  recommendation :: string
  suggestedIntervention :: "string list option"

definition detectConfusion :: "user_behavior \<Rightarrow> confusion_assessment" where
  "detectConfusion userBehavior =
     (let confusionScore = (rewindCount userBehavior * 2) + pauseCount userBehavior
      in \<lparr> isConfused = (confusionScore \<ge> 3),
           confusionScore = confusionScore,
           recommendation =
             (if confusionScore \<ge> 3
              then ''User may be struggling. Offer simplification or step breakdown.''
              else ''User appears to be following along well.''),
           suggestedIntervention =
             (if confusionScore \<ge> 3
              then Some [''vocabulary_simplification'', ''step_breakdown'', ''pause_assistance'']
              else None) \<rparr>)"

section \<open>Behavior tracker\<close>

subsection \<open>Double-precision arithmetic\<close>

text \<open>
  Playback positions are double-precision numbers, taken here as the real numbers they
  stand for. A difference, a quotient and a product are computed in double precision:
  each is the exact result rounded to the nearest double, a tie going to the double
  whose last bit is even. \<open>binade x\<close> is the exponent \<open>e\<close> with \<open>2^e \<le> \<bar>x\<bar> < 2^(e+1)\<close>,
  kept within the exponents of normal doubles, so that the doubles around \<open>x\<close> are the
  multiples of \<open>2^(e - 52)\<close>. A result beyond the largest double is not an infinity
  in this model: a difference compares with the threshold as the infinity does, and a
  product by 10 is beyond the largest double only for a position within one rounding
  step of it.
\<close>

fun binade_up :: "nat \<Rightarrow> real \<Rightarrow> int" where
  "binade_up 0 x = 0"
| "binade_up (Suc n) x = (if x < 2 then 0 else 1 + binade_up n (x / 2))"

fun binade_down :: "nat \<Rightarrow> real \<Rightarrow> int" where
  "binade_down 0 x = 0"
| "binade_down (Suc n) x = (if x \<ge> 1 then 0 else binade_down n (2 * x) - 1)"

definition binade :: "real \<Rightarrow> int" where
  "binade x = (if \<bar>x\<bar> \<ge> 1 then binade_up 1023 \<bar>x\<bar> else binade_down 1022 \<bar>x\<bar>)"

definition round_half_even :: "real \<Rightarrow> int" where
  "round_half_even y =
     (let f = \<lfloor>y\<rfloor>
      in if y - of_int f < 1 / 2 then f
         else if y - of_int f > 1 / 2 then f + 1
         else if even f then f else f + 1)"

definition double_round :: "real \<Rightarrow> real" where
  "double_round x =
     (let q = 2 powi (binade x - 52) in of_int (round_half_even (x / q)) * q)"

definition double_sub :: "real \<Rightarrow> real \<Rightarrow> real" where
  "double_sub a b = double_round (a - b)"

definition double_div :: "real \<Rightarrow> real \<Rightarrow> real" where
  "double_div a b = double_round (a / b)"

definition double_mul :: "real \<Rightarrow> real \<Rightarrow> real" where
  "double_mul a b = double_round (a * b)"

text \<open>\<^verbatim>\<open>Math.floor\<close> of a number is a whole number, which is a double.\<close>

definition Math_floor :: "real \<Rightarrow> real" where
  "Math_floor x = of_int \<lfloor>x\<rfloor>"

subsection \<open>Tracker data and handlers\<close>

text \<open>
  \<^verbatim>\<open>this.data\<close> of the tracker. Counters are integers; playback positions are seconds;
  \<^verbatim>\<open>segmentWatchTimes\<close> maps the start of a 10-second segment, a number, to its visit
  count.
\<close>

record behavior_data =
  data_rewindCount :: int
  data_pauseCount :: int
  data_playbackSpeedChanges :: int
  data_segmentWatchTimes :: "real \<rightharpoonup> int"
  data_lastPosition :: real
  data_rewindThreshold :: real

text \<open>
  What \<^verbatim>\<open>emit\<close> hands to the listeners of an event. The payload of
  \<^verbatim>\<open>confusion-detected\<close> has the four fields that \<open>detectConfusion\<close> reads, and the
  content script passes it on to \<open>detectConfusion\<close> as it is. No listener touches the
  tracker's data, so an emission is an output of the handler.
\<close>

datatype tracker_event =
    Rewind real real int
  | Pause real int
  | Play real
  | RateChange real int
  | ConfusionDetected user_behavior

text \<open>The constructor's initial \<^verbatim>\<open>this.data\<close>.\<close>

definition BehaviorTracker_data :: behavior_data where
  "BehaviorTracker_data =
     \<lparr> data_rewindCount = 0, data_pauseCount = 0, data_playbackSpeedChanges = 0,
       data_segmentWatchTimes = Map.empty, data_lastPosition = 0,
       data_rewindThreshold = 5 \<rparr>"

text \<open>
  Each handler takes what it reads from the video element (\<^verbatim>\<open>getCurrentTime()\<close>,
  \<^verbatim>\<open>getPlaybackRate()\<close>) and the data, and returns the new data with the events it
  emitted, in order. In \<open>handleTimeUpdate\<close> the difference of the positions, the
  quotient by 10 and the product by 10 are the double-precision ones.
\<close>

definition handleTimeUpdate :: "real \<Rightarrow> behavior_data \<Rightarrow> behavior_data \<times> tracker_event list" where
  "handleTimeUpdate currentTime d =
     (let timeDiff = double_sub currentTime (data_lastPosition d);
          rewind = (timeDiff < - data_rewindThreshold d);
          d1 = (if rewind then d\<lparr>data_rewindCount := data_rewindCount d + 1\<rparr> else d);
          emitted =
            (if rewind
             then [Rewind (data_lastPosition d) currentTime (data_rewindCount d1)]
             else []);
          segment = double_mul (Math_floor (double_div currentTime 10)) 10;
          visits =
            (case data_segmentWatchTimes d1 segment of None \<Rightarrow> 0 | Some c \<Rightarrow> c);
          d2 = d1\<lparr>data_segmentWatchTimes := (data_segmentWatchTimes d1)(segment \<mapsto> visits + 1)\<rparr>
      in (d2\<lparr>data_lastPosition := currentTime\<rparr>, emitted))"

definition handlePause :: "real \<Rightarrow> behavior_data \<Rightarrow> behavior_data \<times> tracker_event list" where
  "handlePause currentTime d =
     (let d1 = d\<lparr>data_pauseCount := data_pauseCount d + 1\<rparr>
      in (d1, [Pause currentTime (data_pauseCount d1)]))"

definition handlePlay :: "real \<Rightarrow> behavior_data \<Rightarrow> behavior_data \<times> tracker_event list" where
  "handlePlay currentTime d = (d, [Play currentTime])"

definition handleRateChange :: "real \<Rightarrow> behavior_data \<Rightarrow> behavior_data \<times> tracker_event list" where
  "handleRateChange rate d =
     (let d1 = d\<lparr>data_playbackSpeedChanges := data_playbackSpeedChanges d + 1\<rparr>
      in (d1, [RateChange rate (data_playbackSpeedChanges d1)]))"

definition resetCounters :: "behavior_data \<Rightarrow> behavior_data" where
  "resetCounters d =
     d\<lparr>data_rewindCount := 0, data_pauseCount := 0, data_playbackSpeedChanges := 0\<rparr>"

definition checkForConfusion :: "real \<Rightarrow> behavior_data \<Rightarrow> behavior_data \<times> tracker_event list" where
  "checkForConfusion currentTime d =
     (let recentRewinds = data_rewindCount d;
          recentPauses = data_pauseCount d
      in if recentRewinds \<ge> 3 \<or> recentPauses \<ge> 5
         then (resetCounters d,
               [ConfusionDetected
                  \<lparr> rewindCount = recentRewinds, pauseCount = recentPauses,
                    currentTimestamp = currentTime,
                    watchedSegments = data_segmentWatchTimes d \<rparr>])
         else (d, []))"

text \<open>The visit count of a segment, an absent segment counting as never visited.\<close>

definition visit_count :: "behavior_data \<Rightarrow> real \<Rightarrow> int" where
  "visit_count d segment = (case data_segmentWatchTimes d segment of None \<Rightarrow> 0 | Some c \<Rightarrow> c)"

section \<open>Settings store\<close>

subsection \<open>The platform's key-value store\<close>

text \<open>
  \<^verbatim>\<open>chrome.storage.sync\<close> holds one value per string key. Values enter it as JSON:
  a property whose value is \<^verbatim>\<open>undefined\<close> or a function is dropped, and such an
  array element becomes \<^verbatim>\<open>null\<close>. Quotas and write-rate limits of the store are not
  part of the model.
\<close>

type_synonym storage = "(string \<times> jsval) list"

fun json_clone :: "jsval \<Rightarrow> jsval option"
  and json_clone_elems :: "jsval list \<Rightarrow> jsval list"
  and json_clone_props :: "(string \<times> jsval) list \<Rightarrow> (string \<times> jsval) list" where
  "json_clone JUndefined = None"
| "json_clone JNull = Some JNull"
| "json_clone (JBool b) = Some (JBool b)"
| "json_clone (JNum n) = Some (JNum n)"
| "json_clone (JStr s) = Some (JStr s)"
| "json_clone (JArr xs) = Some (JArr (json_clone_elems xs))"
| "json_clone (JObj ps) = Some (JObj (json_clone_props ps))"
| "json_clone (JBuiltin n) = (if n = ''__proto__'' then Some (JObj []) else None)"
| "json_clone_elems [] = []"
| "json_clone_elems (x # xs) =
     (case json_clone x of None \<Rightarrow> JNull | Some y \<Rightarrow> y) # json_clone_elems xs"
| "json_clone_props [] = []"
| "json_clone_props ((k, v) # ps) =
     (case json_clone v of
        None \<Rightarrow> json_clone_props ps
      | Some y \<Rightarrow> (k, y) # json_clone_props ps)"

text \<open>The values that enter the store unchanged: no \<^verbatim>\<open>undefined\<close>, no function.\<close>

fun is_json :: "jsval \<Rightarrow> bool"
  and are_json :: "jsval list \<Rightarrow> bool"
  and props_json :: "(string \<times> jsval) list \<Rightarrow> bool" where
  "is_json JUndefined = False"
| "is_json JNull = True"
| "is_json (JBool b) = True"
| "is_json (JNum n) = True"
| "is_json (JStr s) = True"
| "is_json (JArr xs) = are_json xs"
| "is_json (JObj ps) = props_json ps"
| "is_json (JBuiltin n) = False"
| "are_json [] = True"
| "are_json (x # xs) = (is_json x \<and> are_json xs)"
| "props_json [] = True"
| "props_json ((k, v) # ps) = (is_json v \<and> props_json ps)"

text \<open>\<^verbatim>\<open>chrome.storage.sync.get(key)\<close> for one string key: the items object.\<close>

definition storage_get :: "string \<Rightarrow> storage \<Rightarrow> (string \<times> jsval) list" where
  "storage_get key st = (case map_of st key of Some v \<Rightarrow> [(key, v)] | None \<Rightarrow> [])"

text \<open>\<^verbatim>\<open>chrome.storage.sync.set(items)\<close>: every property of \<open>items\<close> replaces its key.\<close>

definition storage_set :: "(string \<times> jsval) list \<Rightarrow> storage \<Rightarrow> storage" where
  "storage_set items st = foldl (\<lambda>s (k, v). alist_put k v s) st (json_clone_props items)"

subsection \<open>StorageManager\<close>

definition getAllSettings :: "storage \<Rightarrow> jsval" where
  "getAllSettings st = JObj st"

definition getSetting :: "string \<Rightarrow> storage \<Rightarrow> jsval" where
  "getSetting key st = (let result = storage_get key st in obj_get result key)"

definition updateSetting :: "string \<Rightarrow> jsval \<Rightarrow> storage \<Rightarrow> storage" where
  "updateSetting key v st = storage_set [(key, v)] st"

text \<open>
  \<open>isFeatureEnabled\<close> and \<open>toggleFeature\<close> index the stored \<^verbatim>\<open>features\<close> value. The
  model covers a value that is absent (or falsy, for the toggle) or a plain object;
  \<open>None\<close> marks any other stored value, on which the model says nothing.
\<close>

definition isFeatureEnabled :: "string \<Rightarrow> storage \<Rightarrow> jsval option" where
  "isFeatureEnabled featureName st =
     (case getSetting ''features'' st of
        JUndefined \<Rightarrow> Some (JBool True)
      | JNull \<Rightarrow> Some (JBool True)
      | JObj features \<Rightarrow> Some (js_nullish (obj_get features featureName) (JBool True))
      | _ \<Rightarrow> None)"

definition toggleFeature :: "string \<Rightarrow> storage \<Rightarrow> (storage \<times> jsval) option" where
  "toggleFeature featureName st =
     (case js_or (getSetting ''features'' st) (JObj []) of
        JObj features \<Rightarrow>
          (let features1 =
                 fst (obj_assign (features, ObjectPrototype) featureName
                        (JBool (\<not> js_truthy (obj_get features featureName))));
               st1 = updateSetting ''features'' (JObj features1) st
           in Some (st1, obj_get features1 featureName))
      | _ \<Rightarrow> None)"

section \<open>Message router\<close>

text \<open>
  A request envelope has a string \<^verbatim>\<open>type\<close> and a \<^verbatim>\<open>data\<close> value. A handler that throws
  rejects with an error: an \<^verbatim>\<open>Error\<close> the code builds with a message, or a
  \<^verbatim>\<open>TypeError\<close> raised by the language.
\<close>

record request =
  req_type :: string
  req_data :: jsval

datatype js_error = Error string | TypeError

subsection \<open>Settings handlers\<close>

text \<open>
  The settings handlers, on the fields they destructure from \<^verbatim>\<open>data\<close>: \<^verbatim>\<open>keys\<close> is a
  sequence of strings when given, \<^verbatim>\<open>key\<close> and \<^verbatim>\<open>featureName\<close> are strings. The result
  of \<open>handleGetSettings\<close> for given keys is the object it filled, as a reply carries it:
  its own properties.
\<close>

definition handleGetSettings :: "string list option \<Rightarrow> storage \<Rightarrow> jsval" where
  "handleGetSettings keys st =
     (case keys of
        Some ks \<Rightarrow>
          JObj (fst (foldl (\<lambda>result key. obj_assign result key (getSetting key st))
                       ([], ObjectPrototype) ks))
      | None \<Rightarrow> getAllSettings st)"

definition handleUpdateSettings :: "string \<Rightarrow> jsval \<Rightarrow> storage \<Rightarrow> storage \<times> jsval" where
  "handleUpdateSettings key v st = (updateSetting key v st, JObj [(''success'', JBool True)])"

definition handleToggleFeature :: "string \<Rightarrow> storage \<Rightarrow> (storage \<times> jsval) option" where
  "handleToggleFeature featureName st =
     (case toggleFeature featureName st of
        None \<Rightarrow> None
      | Some (st1, newState) \<Rightarrow>
          Some (st1, JObj [(''featureName'', JStr featureName), (''enabled'', newState)]))"

subsection \<open>Dispatch\<close>

text \<open>The own keys of \<^verbatim>\<open>this.handlers\<close>, as the constructor fills it.\<close>

definition registered_types :: "string list" where
  "registered_types =
     [''ANALYZE_FRAME'', ''TEST_GEMINI'', ''SIMPLIFY_TEXT'', ''GENERATE_CHECKLIST'',
      ''DETECT_CONFUSION'', ''EXTENSION_READY'', ''GET_SETTINGS'', ''UPDATE_SETTINGS'',
      ''TOGGLE_FEATURE'', ''RECORD_INTERACTION'']"

text \<open>
  \<^verbatim>\<open>this.handlers[type]\<close>, when truthy: a registered handler, or a member the handler
  table inherits from \<^verbatim>\<open>Object.prototype\<close>, the table being an object literal.
\<close>

datatype handler_ref = Registered string | Inherited string

definition handlers_lookup :: "string \<Rightarrow> handler_ref option" where
  "handlers_lookup t =
     (if t \<in> set registered_types then Some (Registered t)
      else if t \<in> set Object_prototype_names then Some (Inherited t)
      else None)"

text \<open>
  \<^verbatim>\<open>handler(data, sender)\<close> for an inherited member, called without a receiver.
  \<^verbatim>\<open>Object(data)\<close> is a new empty object for \<^verbatim>\<open>undefined\<close> and \<^verbatim>\<open>null\<close> and \<open>data\<close>
  itself otherwise (a primitive is wrapped, and serialises as itself);
  \<^verbatim>\<open>toString\<close> answers for the missing receiver; \<^verbatim>\<open>isPrototypeOf\<close> answers
  \<^verbatim>\<open>false\<close> for a primitive argument before it looks at the receiver; every other
  member throws a \<^verbatim>\<open>TypeError\<close>, for the missing receiver or, for \<^verbatim>\<open>__proto__\<close>,
  because the member is not a function.
\<close>

definition call_inherited :: "string \<Rightarrow> jsval \<Rightarrow> js_error + jsval" where
  "call_inherited n d =
     (if n = ''constructor''
      then Inr (if d = JUndefined \<or> d = JNull then JObj [] else d)
      else if n = ''toString'' then Inr (JStr ''[object Undefined]'')
      else if n = ''isPrototypeOf''
      then (case d of
              JArr xs \<Rightarrow> Inl TypeError
            | JObj ps \<Rightarrow> Inl TypeError
            | JBuiltin m \<Rightarrow> Inl TypeError
            | _ \<Rightarrow> Inr (JBool False))
      else Inl TypeError)"

text \<open>
  \<open>handleMessage\<close>. The registered handlers are the parameter \<open>run\<close>: the handler of a
  registered type, applied to the data and the state it works on.
\<close>

definition handleMessage ::
  "(string \<Rightarrow> jsval \<Rightarrow> 's \<Rightarrow> 's \<times> (js_error + jsval)) \<Rightarrow> request \<Rightarrow> 's \<Rightarrow> 's \<times> (js_error + jsval)" where
  "handleMessage run message s =
     (case handlers_lookup (req_type message) of
        None \<Rightarrow> (s, Inl (Error (''Unknown message type: '' @ req_type message)))
      | Some (Registered t) \<Rightarrow> run t (req_data message) s
      | Some (Inherited n) \<Rightarrow> (s, call_inherited n (req_data message)))"

text \<open>
  The reply handed to \<^verbatim>\<open>sendResponse\<close>: \<^verbatim>\<open>{success: true, data}\<close> or
  \<^verbatim>\<open>{success: false, error}\<close>, the error field being the message of the error.
\<close>

datatype response = Success jsval | Failure js_error

text \<open>
  The \<^verbatim>\<open>chrome.runtime.onMessage\<close> listener of the background script. The two frame
  analysis types go to \<^verbatim>\<open>handleVLMRequest\<close>, the parameter \<open>vlm\<close>, which catches its
  own errors and returns its data or the error; everything else goes to the router, and
  a rejection becomes a failure reply.
\<close>

definition onMessage_listener ::
  "(jsval \<Rightarrow> js_error + jsval) \<Rightarrow> (string \<Rightarrow> jsval \<Rightarrow> 's \<Rightarrow> 's \<times> (js_error + jsval))
     \<Rightarrow> request \<Rightarrow> 's \<Rightarrow> 's \<times> response" where
  "onMessage_listener vlm run message s =
     (if req_type message = ''ANALYZE_FRAME'' \<or> req_type message = ''TEST_GEMINI''
      then (case vlm (req_data message) of
              Inr d \<Rightarrow> (s, Success d)
            | Inl e \<Rightarrow> (s, Failure e))
      else (case handleMessage run message s of
              (s1, Inr r) \<Rightarrow> (s1, Success r)
            | (s1, Inl e) \<Rightarrow> (s1, Failure e)))"

section \<open>AI service: provider calls\<close>

subsection \<open>Extracting a result from the provider's text\<close>

text \<open>
  \<^verbatim>\<open>resultText.match(/\{[\s\S]*\}|\[[\s\S]*\]/)\<close>. The star is greedy: after the
  opening character it takes the longest run that still ends in the closing character.
  \<open>greedy_to c s\<close> is the longest prefix of \<open>s\<close> that ends in \<open>c\<close>.
\<close>

fun greedy_to :: "char \<Rightarrow> string \<Rightarrow> string option" where
  "greedy_to c [] = None"
| "greedy_to c (x # xs) =
     (case greedy_to c xs of
        Some m \<Rightarrow> Some (x # m)
      | None \<Rightarrow> if x = c then Some [x] else None)"

text \<open>The pattern tried at the start of \<open>s\<close>: the first alternative, then the second.\<close>

definition match_at :: "string \<Rightarrow> string option" where
  "match_at s =
     (case s of
        [] \<Rightarrow> None
      | x # xs \<Rightarrow>
          (case (if x = CHR ''{'' then greedy_to CHR ''}'' xs else None) of
             Some m \<Rightarrow> Some (x # m)
           | None \<Rightarrow>
               (case (if x = CHR ''['' then greedy_to CHR '']'' xs else None) of
                  Some m \<Rightarrow> Some (x # m)
                | None \<Rightarrow> None)))"

text \<open>The match is tried at each start position, from the left; the first one wins.\<close>

fun regex_match :: "string \<Rightarrow> string option" where
  "regex_match [] = None"
| "regex_match (x # xs) =
     (case match_at (x # xs) of Some m \<Rightarrow> Some m | None \<Rightarrow> regex_match xs)"

text \<open>
  The parse pipeline at the end of \<open>callLLM\<close>. \<open>parse\<close> is the platform's
  \<^verbatim>\<open>JSON.parse\<close>, \<open>None\<close> when it throws.
\<close>

definition parseLLMText :: "(string \<Rightarrow> jsval option) \<Rightarrow> string \<Rightarrow> jsval" where
  "parseLLMText parse resultText =
     (case parse resultText of
        Some parsed \<Rightarrow> parsed
      | None \<Rightarrow>
          (case regex_match resultText of
             Some jsonMatch \<Rightarrow>
               (case parse jsonMatch of
                  Some parsed \<Rightarrow> parsed
                | None \<Rightarrow> JObj [(''simplified'', JStr resultText), (''definitions'', JArr [])])
           | None \<Rightarrow> JObj [(''simplified'', JStr resultText), (''definitions'', JArr [])]))"

text \<open>\<^verbatim>\<open>indexOf\<close>, \<^verbatim>\<open>lastIndexOf\<close> (\<open>-1\<close> when the character is missing), \<^verbatim>\<open>substring\<close>.\<close>

fun indexOf :: "string \<Rightarrow> char \<Rightarrow> int" where
  "indexOf [] c = -1"
| "indexOf (x # xs) c =
     (if x = c then 0 else (let i = indexOf xs c in if i = -1 then -1 else i + 1))"

fun lastIndexOf :: "string \<Rightarrow> char \<Rightarrow> int" where
  "lastIndexOf [] c = -1"
| "lastIndexOf (x # xs) c =
     (let i = lastIndexOf xs c in if i \<noteq> -1 then i + 1 else if x = c then 0 else -1)"

definition substring :: "string \<Rightarrow> int \<Rightarrow> int \<Rightarrow> string" where
  "substring s a b = take (nat (b - a)) (drop (nat a) s)"

text \<open>The parse pipeline at the end of \<open>callVLM\<close>.\<close>

definition parseVLMText :: "(string \<Rightarrow> jsval option) \<Rightarrow> string \<Rightarrow> jsval" where
  "parseVLMText parse resultText =
     (case parse resultText of
        Some parsed \<Rightarrow> parsed
      | None \<Rightarrow>
          (let start = indexOf resultText CHR ''{'';
               end = lastIndexOf resultText CHR ''}''
           in if start \<noteq> -1 \<and> end \<noteq> -1 \<and> end > start
              then (case parse (substring resultText start (end + 1)) of
                      Some parsed \<Rightarrow> parsed
                    | None \<Rightarrow> JObj [(''objects'', JArr [])])
              else JObj [(''objects'', JArr [])]))"

subsection \<open>The extraction as the specification words it\<close>








subsection \<open>A JSON reader for concrete texts\<close>










subsection \<open>The calls\<close>

text \<open>
  What the calls use of the platform: \<^verbatim>\<open>fetch\<close> followed by \<^verbatim>\<open>resp.json()\<close>, from the
  API key and the request body to the reply or a rejection; \<^verbatim>\<open>JSON.parse\<close>;
  \<^verbatim>\<open>JSON.stringify\<close>; and the decoding of an image data URI into its MIME type and
  base64 payload, \<open>None\<close> when the URI matches neither pattern.
\<close>

record platform =
  fetch_json :: "jsval \<Rightarrow> jsval \<Rightarrow> js_error + jsval"
  JSON_parse :: "string \<Rightarrow> jsval option"
  JSON_stringify :: "jsval \<Rightarrow> string"
  decode_data_uri :: "string \<Rightarrow> (string \<times> string) option"

text \<open>The calls a function makes to the outside, in order.\<close>

datatype external_call = StorageGet "string list" | Fetch jsval jsval

definition GEMINI_API_KEY :: string where
  "GEMINI_API_KEY = ''<YOUR_GEMINI_API_KEY_HERE>''"

text \<open>
  \<^verbatim>\<open>v?.name\<close> and \<^verbatim>\<open>v?.[0]\<close>, for the names read from the provider's reply
  (\<^verbatim>\<open>candidates\<close>, \<^verbatim>\<open>content\<close>, \<^verbatim>\<open>parts\<close>, \<^verbatim>\<open>text\<close>), which only a plain object can
  have.
\<close>

definition js_prop :: "jsval \<Rightarrow> string \<Rightarrow> jsval" where
  "js_prop v name = (case v of JObj ps \<Rightarrow> obj_get ps name | _ \<Rightarrow> JUndefined)"

definition js_first :: "jsval \<Rightarrow> jsval" where
  "js_first v =
     (case v of
        JArr xs \<Rightarrow> (case xs of [] \<Rightarrow> JUndefined | x # _ \<Rightarrow> x)
      | JObj ps \<Rightarrow> obj_get ps ''0''
      | JStr s \<Rightarrow> (case s of [] \<Rightarrow> JUndefined | c # _ \<Rightarrow> JStr [c])
      | _ \<Rightarrow> JUndefined)"

definition response_text :: "jsval \<Rightarrow> jsval" where
  "response_text d =
     js_or (js_prop (js_first (js_prop (js_prop (js_first (js_prop d ''candidates''))
              ''content'') ''parts'')) ''text'') JNull"

text \<open>
  \<open>callLLM\<close> and \<open>callVLM\<close> return what the promise settles with and the outside calls
  made. A reply whose text field is truthy but not a string is outside the model
  (\<open>None\<close>).
\<close>

definition callLLM ::
  "platform \<Rightarrow> string \<Rightarrow> storage \<Rightarrow> ((js_error + jsval) \<times> external_call list) option" where
  "callLLM P prompt st =
     (let config = storage_get ''geminiApiKey'' st;
          geminiKey = obj_get config ''geminiApiKey''
      in if \<not> js_truthy geminiKey \<or> geminiKey = JStr GEMINI_API_KEY
         then Some (Inl (Error
                ''Gemini API key not configured. Please set it in the extension popup.''),
              [StorageGet [''geminiApiKey'']])
         else
           (let body = JObj [(''contents'',
                  JArr [JObj [(''parts'', JArr [JObj [(''text'', JStr prompt)]])]])];
                calls = [StorageGet [''geminiApiKey''], Fetch geminiKey body]
            in case fetch_json P geminiKey body of
                 Inl e \<Rightarrow> Some (Inl e, calls)
               | Inr d \<Rightarrow>
                   (case response_text d of
                      JNull \<Rightarrow>
                        Some (Inl (Error (''Gemini LLM error: '' @ JSON_stringify P d)), calls)
                    | JStr resultText \<Rightarrow>
                        Some (Inr (parseLLMText (JSON_parse P) resultText), calls)
                    | _ \<Rightarrow> None)))"

definition callVLM ::
  "platform \<Rightarrow> string \<Rightarrow> string \<Rightarrow> storage
     \<Rightarrow> ((js_error + jsval) \<times> external_call list) option" where
  "callVLM P frameDataUrl prompt st =
     (let config = storage_get ''geminiApiKey'' st;
          geminiKey = obj_get config ''geminiApiKey''
      in if \<not> js_truthy geminiKey \<or> geminiKey = JStr GEMINI_API_KEY
         then Some (Inl (Error
                ''Gemini API key not configured. Please set it in the extension popup.''),
              [StorageGet [''geminiApiKey'']])
         else
           (case decode_data_uri P frameDataUrl of
              None \<Rightarrow> Some (Inl (Error ''Invalid image data URI''), [StorageGet [''geminiApiKey'']])
            | Some (mimeType, rawBase64Data) \<Rightarrow>
                (let body = JObj [(''contents'',
                       JArr [JObj [(''parts'',
                         JArr [JObj [(''text'', JStr prompt)],
                               JObj [(''inlineData'',
                                 JObj [(''mimeType'',
                                          JStr (if mimeType = [] then ''image/jpeg'' else mimeType)),
                                       (''data'', JStr rawBase64Data)])]])]])];
                     calls = [StorageGet [''geminiApiKey''], Fetch geminiKey body]
                 in case fetch_json P geminiKey body of
                      Inl e \<Rightarrow> Some (Inl e, calls)
                    | Inr d \<Rightarrow>
                        (case response_text d of
                           JNull \<Rightarrow>
                             Some (Inl (Error (''Gemini VLM error: '' @ JSON_stringify P d)), calls)
                         | JStr resultText \<Rightarrow>
                             Some (Inr (parseVLMText (JSON_parse P) resultText), calls)
                         | _ \<Rightarrow> None))))"

section \<open>Message client\<close>

subsection \<open>Persistent channel\<close>

text \<open>
  A message arriving on a port, as the listener reads it: its \<^verbatim>\<open>requestId\<close> (any
  value; \<^verbatim>\<open>undefined\<close> when missing), the \<^verbatim>\<open>success\<close> flag, the \<^verbatim>\<open>data\<close> and the
  \<^verbatim>\<open>error\<close> string when there is one. A promise settles once, resolved with a value or
  rejected with an error message.
\<close>

record port_message =
  msg_requestId :: jsval
  msg_success :: bool
  msg_data :: jsval
  msg_error :: "string option"

datatype settled = Resolved jsval | Rejected string

text \<open>
  One call of \<open>sendViaPort\<close>: the request id it generated, whether its listener is still
  attached to its open port (with the timer running), and how its promise settled.
\<close>

record port_call =
  call_requestId :: string
  call_listening :: bool
  call_settled :: "settled option"

text \<open>The envelope posted on the port.\<close>

record port_request = request +
  req_requestId :: string

text \<open>
  \<open>sendViaPort\<close> up to the posting of the request. The request id comes from the clock
  and the random number generator, and is a parameter here.
\<close>

definition sendViaPort :: "string \<Rightarrow> jsval \<Rightarrow> string \<Rightarrow> port_call \<times> port_request" where
  "sendViaPort t d requestId =
     (\<lparr> call_requestId = requestId, call_listening = True, call_settled = None \<rparr>,
      \<lparr> req_type = t, req_data = d, req_requestId = requestId \<rparr>)"

text \<open>\<^verbatim>\<open>msg.error || 'Unknown error from port'\<close>\<close>

definition error_or :: "string option \<Rightarrow> string \<Rightarrow> string" where
  "error_or e dflt = (case e of None \<Rightarrow> dflt | Some m \<Rightarrow> if m = [] then dflt else m)"

text \<open>
  The listener \<^verbatim>\<open>onMessage\<close> of a call, for a message arriving on its port (\<open>None\<close> for
  a falsy message). Once removed, the listener is not called any more.
\<close>

definition onMessage :: "port_call \<Rightarrow> port_message option \<Rightarrow> port_call" where
  "onMessage call msg =
     (if \<not> call_listening call then call
      else case msg of
        None \<Rightarrow> call
      | Some m \<Rightarrow>
          if msg_requestId m \<noteq> JStr (call_requestId call) then call
          else call\<lparr> call_listening := False,
                 call_settled :=
                   Some (if msg_success m then Resolved (msg_data m)
                         else Rejected (error_or (msg_error m) ''Unknown error from port'')) \<rparr>)"

text \<open>The timer of a call fires, unless the call has settled and cleared it.\<close>

definition onTimeout :: "port_call \<Rightarrow> port_call" where
  "onTimeout call =
     (if \<not> call_listening call then call
      else call\<lparr> call_listening := False,
             call_settled := Some (Rejected ''Timeout waiting for port response (> 45s)'') \<rparr>)"

text \<open>
  A message shown to the listeners of several pending calls. Each call opens a port of
  its own, so a reply reaches one listener only; showing it to all of them is the
  harder case.
\<close>

definition deliver :: "port_message option \<Rightarrow> port_call list \<Rightarrow> port_call list" where
  "deliver msg calls = map (\<lambda>call. onMessage call msg) calls"

subsection \<open>Transient strategy\<close>

text \<open>
  What one \<^verbatim>\<open>chrome.runtime.sendMessage\<close> hands to its callback: \<^verbatim>\<open>lastError\<close> with
  its message, or the response (\<open>None\<close> when falsy).
\<close>

record reply =
  reply_success :: bool
  reply_data :: jsval
  reply_error :: "string option"

datatype send_outcome = LastError string | Responded "reply option"

text \<open>What the client does, in order: a send, a wait in milliseconds, the fallback.\<close>

datatype client_action = SendMessage | Wait nat | ConnectPort

definition maxRetries :: nat where
  "maxRetries = 3"

definition baseDelay :: nat where
  "baseDelay = 150"

text \<open>
  The test for a transient error: the message contains one of two phrases, letters
  compared without regard to case.
\<close>

definition to_lower :: "char \<Rightarrow> char" where
  "to_lower c =
     (let n = (of_char c :: nat) in if 65 \<le> n \<and> n \<le> 90 then char_of (n + 32) else c)"

fun starts_with_ci :: "string \<Rightarrow> string \<Rightarrow> bool" where
  "starts_with_ci [] s = True"
| "starts_with_ci (p # ps) [] = False"
| "starts_with_ci (p # ps) (x # xs) = (to_lower p = to_lower x \<and> starts_with_ci ps xs)"

fun contains_ci :: "string \<Rightarrow> string \<Rightarrow> bool" where
  "contains_ci pat [] = starts_with_ci pat []"
| "contains_ci pat (x # xs) = (starts_with_ci pat (x # xs) \<or> contains_ci pat xs)"

definition transient :: "string \<Rightarrow> bool" where
  "transient msg =
     (contains_ci ''Extension context invalidated'' msg
      \<or> contains_ci ''The message port closed before a response was received'' msg)"

text \<open>
  \<open>attempt\<close>. \<open>sends k\<close> is the outcome of the \<open>k\<close>-th send of the call, counted from 0,
  and \<open>port\<close> is how the fallback over a port settles when it is tried. The result is
  the list of actions and how the promise settles.
\<close>

fun attempt :: "(nat \<Rightarrow> send_outcome) \<Rightarrow> settled \<Rightarrow> nat \<Rightarrow> nat \<Rightarrow> client_action list \<times> settled" where
  "attempt sends port k triesLeft =
     (case sends k of
        LastError msg \<Rightarrow>
          if transient msg \<and> triesLeft > 0
          then (let r = attempt sends port (k + 1) (triesLeft - 1)
                in (SendMessage # Wait (baseDelay * (maxRetries - triesLeft + 1)) # fst r, snd r))
          else ([SendMessage, ConnectPort],
                (case port of Resolved d \<Rightarrow> Resolved d | Rejected e \<Rightarrow> Rejected msg))
      | Responded response \<Rightarrow>
          ([SendMessage],
           (case response of
              None \<Rightarrow> Rejected ''Unknown error''
            | Some r \<Rightarrow>
                if reply_success r then Resolved (reply_data r)
                else Rejected (error_or (reply_error r) ''Unknown error''))))"

declare attempt.simps [simp del]

definition sendViaMessage :: "(nat \<Rightarrow> send_outcome) \<Rightarrow> settled \<Rightarrow> client_action list \<times> settled" where
  "sendViaMessage sends port = attempt sends port 0 maxRetries"

section \<open>Properties\<close>

lemma map_of_replace_prop:
  "map_of (replace_prop k v ps) = (if map_of ps k = None then map_of ps else (map_of ps)(k \<mapsto> v))"
  by (induction ps) auto

lemma map_of_put_index:
  "map_of ps k = None \<Longrightarrow> map_of (put_index n k v ps) = (map_of ps)(k \<mapsto> v)"
  by (induction ps) (auto split: option.splits if_splits)

lemma map_of_snoc_absent:
  "map_of ps k = None \<Longrightarrow> map_of (ps @ [(k, v)]) = (map_of ps)(k \<mapsto> v)"
  by (rule ext) (auto simp: map_add_def split: option.splits)

lemma map_of_alist_put: "map_of (alist_put k v ps) = (map_of ps)(k \<mapsto> v)"
  by (auto simp: alist_put_def map_of_replace_prop map_of_put_index map_of_snoc_absent
      simp del: map_of_append split: option.splits)

text \<open>
  C3. For every behaviour sample, \<open>detectConfusion\<close> returns the score
  \<open>rewindCount * 2 + pauseCount\<close>, reports confusion exactly when the score is at least 3,
  and suggests the fixed list of three interventions when confused and nothing
  otherwise. Three rewinds and no pause give score 6 and confusion; no rewind and two
  pauses give score 2 and no confusion.
\<close>

theorem detectConfusion_score:
  "confusionScore (detectConfusion b) = rewindCount b * 2 + pauseCount b
   \<and> isConfused (detectConfusion b) = (confusionScore (detectConfusion b) \<ge> 3)
   \<and> suggestedIntervention (detectConfusion b) =
       (if isConfused (detectConfusion b)
        then Some [''vocabulary_simplification'', ''step_breakdown'', ''pause_assistance'']
        else None)
   \<and> isConfused (detectConfusion \<lparr>rewindCount = 3, pauseCount = 0,
         currentTimestamp = t, watchedSegments = w\<rparr>) = True
   \<and> confusionScore (detectConfusion \<lparr>rewindCount = 3, pauseCount = 0,
         currentTimestamp = t, watchedSegments = w\<rparr>) = 6
   \<and> isConfused (detectConfusion \<lparr>rewindCount = 0, pauseCount = 2,
         currentTimestamp = t, watchedSegments = w\<rparr>) = False
   \<and> confusionScore (detectConfusion \<lparr>rewindCount = 0, pauseCount = 2,
         currentTimestamp = t, watchedSegments = w\<rparr>) = 2"
  by (simp add: detectConfusion_def Let_def)


subsection \<open>Behavior tracker\<close>

text \<open>No handler changes the rewind threshold the constructor sets.\<close>

lemma rewindThreshold_kept:
  "data_rewindThreshold (fst (handleTimeUpdate t d)) = data_rewindThreshold d"
  "data_rewindThreshold (fst (handlePause t d)) = data_rewindThreshold d"
  "data_rewindThreshold (fst (handlePlay t d)) = data_rewindThreshold d"
  "data_rewindThreshold (fst (handleRateChange r d)) = data_rewindThreshold d"
  "data_rewindThreshold (fst (checkForConfusion t d)) = data_rewindThreshold d"
  by (simp_all add: handleTimeUpdate_def handlePause_def handlePlay_def handleRateChange_def
      checkForConfusion_def resetCounters_def Let_def)

text \<open>
  C4. On a confusion check, when \<open>rewindCount \<ge> 3\<close> or \<open>pauseCount \<ge> 5\<close> exactly one
  \<^verbatim>\<open>confusion-detected\<close> event is emitted, carrying the two counts as they were, the
  current position and the whole segment map; afterwards the three counters are 0 and
  the segment map, the last position and the threshold are as before. Otherwise nothing
  is emitted and the data are unchanged.
\<close>

theorem checkForConfusion_trip:
  "(if data_rewindCount d \<ge> 3 \<or> data_pauseCount d \<ge> 5
    then snd (checkForConfusion t d) =
           [ConfusionDetected \<lparr> rewindCount = data_rewindCount d,
              pauseCount = data_pauseCount d, currentTimestamp = t,
              watchedSegments = data_segmentWatchTimes d \<rparr>]
       \<and> data_rewindCount (fst (checkForConfusion t d)) = 0
       \<and> data_pauseCount (fst (checkForConfusion t d)) = 0
       \<and> data_playbackSpeedChanges (fst (checkForConfusion t d)) = 0
       \<and> data_segmentWatchTimes (fst (checkForConfusion t d)) = data_segmentWatchTimes d
       \<and> data_lastPosition (fst (checkForConfusion t d)) = data_lastPosition d
       \<and> data_rewindThreshold (fst (checkForConfusion t d)) = data_rewindThreshold d
       \<and> behavior_data.more (fst (checkForConfusion t d)) = behavior_data.more d
    else checkForConfusion t d = (d, []))"
  by (simp add: checkForConfusion_def resetCounters_def Let_def)

text \<open>The double-precision difference is below \<open>-5\<close> exactly when the exact one is below \<open>-5 - 2^-51\<close>.\<close>

lemma binade_up_le1: "x < 4 \<Longrightarrow> binade_up n x \<le> 1"
proof (cases n)
  case 0
  then show ?thesis by simp
next
  case (Suc m)
  assume "x < 4"
  then show ?thesis using Suc by (cases m) auto
qed

lemma binade_down_le0: "binade_down n x \<le> 0"
proof (induction n arbitrary: x)
  case 0
  then show ?case by simp
next
  case (Suc n)
  show ?case using Suc[of "2 * x"] by auto
qed

lemma binade_le1: "\<bar>x\<bar> < 4 \<Longrightarrow> binade x \<le> 1"
  using binade_up_le1[of "\<bar>x\<bar>" 1023] binade_down_le0[of 1022 "\<bar>x\<bar>"]
  by (auto simp: binade_def)

lemma binade_up_2: "4 \<le> x \<Longrightarrow> x < 8 \<Longrightarrow> binade_up (Suc (Suc (Suc n))) x = 2"
  by simp

lemma binade_2: "4 \<le> \<bar>x\<bar> \<Longrightarrow> \<bar>x\<bar> < 8 \<Longrightarrow> binade x = 2"
proof -
  assume a: "4 \<le> \<bar>x\<bar>" "\<bar>x\<bar> < 8"
  have "(1023::nat) = Suc (Suc (Suc 1020))" by simp
  then show ?thesis
    using a binade_up_2[of "\<bar>x\<bar>" 1020] by (simp add: binade_def)
qed

lemma binade_up_lower: "1 \<le> x \<Longrightarrow> 2 powi (binade_up n x) \<le> x"
proof (induction n arbitrary: x)
  case 0
  then show ?case by simp
next
  case (Suc n)
  show ?case
  proof (cases "x < 2")
    case True
    then show ?thesis using Suc.prems by simp
  next
    case False
    then have "1 \<le> x / 2" by simp
    from Suc.IH[OF this] have "2 powi (binade_up n (x / 2)) \<le> x / 2" .
    moreover have "(2::real) powi (1 + binade_up n (x / 2)) = 2 * 2 powi (binade_up n (x / 2))"
      by (simp add: power_int_add)
    ultimately show ?thesis using False by simp
  qed
qed

lemma binade_lower: "1 \<le> \<bar>x\<bar> \<Longrightarrow> 2 powi (binade x) \<le> \<bar>x\<bar>"
  using binade_up_lower[of "\<bar>x\<bar>" 1023] by (simp add: binade_def)

lemma round_half_even_bounds:
  "of_int (round_half_even y) \<le> y + 1 / 2" "y - 1 / 2 \<le> of_int (round_half_even y)"
  unfolding round_half_even_def Let_def by (auto; linarith)+

lemma round_half_even_less_even:
  assumes "even n"
  shows "round_half_even y < n \<longleftrightarrow> y < of_int n - 1 / 2"
proof
  assume l: "round_half_even y < n"
  show "y < of_int n - 1 / 2"
  proof (rule ccontr)
    assume "\<not> y < of_int n - 1 / 2"
    then have ge: "y \<ge> of_int n - 1 / 2" by simp
    then have f: "\<lfloor>y\<rfloor> \<ge> n - 1" by linarith
    show False
    proof (cases "\<lfloor>y\<rfloor> \<ge> n")
      case True
      then have "round_half_even y \<ge> n"
        unfolding round_half_even_def Let_def by auto
      then show False using l by simp
    next
      case False
      then have e: "\<lfloor>y\<rfloor> = n - 1" using f by simp
      then have o: "odd \<lfloor>y\<rfloor>" using assms by simp
      have "y - of_int \<lfloor>y\<rfloor> \<ge> 1 / 2" using ge e by simp
      then have "round_half_even y = \<lfloor>y\<rfloor> + 1"
        unfolding round_half_even_def Let_def using o by auto
      then show False using l e by simp
    qed
  qed
next
  assume r: "y < of_int n - 1 / 2"
  then have f: "\<lfloor>y\<rfloor> \<le> n - 1" by linarith
  show "round_half_even y < n"
  proof (cases "\<lfloor>y\<rfloor> = n - 1")
    case True
    then have "y - of_int \<lfloor>y\<rfloor> < 1 / 2" using r by simp
    then show ?thesis unfolding round_half_even_def Let_def using True by simp
  next
    case False
    then have "\<lfloor>y\<rfloor> \<le> n - 2" using f by simp
    moreover have "round_half_even y \<le> \<lfloor>y\<rfloor> + 1"
      unfolding round_half_even_def Let_def by auto
    ultimately show ?thesis by simp
  qed
qed

lemma double_round_lt_minus5:
  "double_round x < - 5 \<longleftrightarrow> x < - 5 - 1 / 2 ^ 51"
proof -
  consider "x \<le> - 8" | "- 8 < x \<and> x \<le> - 4" | "- 4 < x"
    by linarith
  then show ?thesis
  proof cases
    case 1
    let ?q = "2 powi (binade x - 52) :: real"
    have a: "1 \<le> \<bar>x\<bar>" using 1 by simp
    have "?q = 2 powi (binade x) / 2 ^ 52"
      by (simp add: power_int_diff)
    then have q: "?q \<le> \<bar>x\<bar> / 2 ^ 52"
      using binade_lower[OF a] by (simp add: divide_right_mono)
    have qpos: "0 < ?q" by simp
    have "of_int (round_half_even (x / ?q)) \<le> x / ?q + 1 / 2"
      by (rule round_half_even_bounds)
    then have "of_int (round_half_even (x / ?q)) * ?q \<le> (x / ?q + 1 / 2) * ?q"
      using qpos by (simp add: mult_right_mono)
    also have "\<dots> = x + ?q / 2"
      using qpos by (simp add: field_simps)
    also have "\<dots> \<le> x + \<bar>x\<bar> / 2 ^ 52 / 2"
      using q by simp
    also have "\<dots> < - 5"
      using 1 by simp
    finally have "double_round x < - 5"
      by (simp add: double_round_def Let_def)
    moreover have "x < - 5 - 1 / 2 ^ 51"
      using 1 by simp
    ultimately show ?thesis by simp
  next
    case 2
    then have b: "binade x = 2"
      using binade_2[of x] by simp
    have q: "(2::real) powi (2 - 52) = 1 / 2 ^ 50"
      by (simp add: power_int_minus field_simps)
    have ev: "even (- 5 * 2 ^ 50 :: int)" by simp
    have "double_round x < - 5 \<longleftrightarrow>
        of_int (round_half_even (x * 2 ^ 50)) < (- 5 * 2 ^ 50 :: real)"
      by (simp add: double_round_def Let_def b q field_simps)
    also have "\<dots> \<longleftrightarrow> round_half_even (x * 2 ^ 50) < - 5 * 2 ^ 50"
    proof -
      have "(- 5 * 2 ^ 50 :: real) = of_int (- 5 * 2 ^ 50)" by simp
      then show ?thesis by (simp only: of_int_less_iff)
    qed
    also have "\<dots> \<longleftrightarrow> x * 2 ^ 50 < of_int (- 5 * 2 ^ 50) - 1 / 2"
      by (rule round_half_even_less_even[OF ev])
    also have "\<dots> \<longleftrightarrow> x < - 5 - 1 / 2 ^ 51"
      by (simp add: field_simps)
    finally show ?thesis .
  next
    case 3
    show ?thesis
    proof (cases "x < 4")
      case True
      let ?q = "2 powi (binade x - 52) :: real"
      have "binade x \<le> 1" using 3 True binade_le1[of x] by simp
      then have "?q \<le> 2 powi (1 - 52)"
        by (intro power_int_increasing) simp_all
      also have "\<dots> = 1 / 2 ^ 51"
        by (simp add: power_int_minus field_simps)
      finally have q: "?q \<le> 1 / 2 ^ 51" .
      have qpos: "0 < ?q" by simp
      have "x / ?q - 1 / 2 \<le> of_int (round_half_even (x / ?q))"
        by (rule round_half_even_bounds)
      then have "(x / ?q - 1 / 2) * ?q \<le> of_int (round_half_even (x / ?q)) * ?q"
        using qpos by (simp add: mult_right_mono)
      moreover have "(x / ?q - 1 / 2) * ?q = x - ?q / 2"
        using qpos by (simp add: field_simps)
      ultimately have "x - ?q / 2 \<le> double_round x"
        by (simp add: double_round_def Let_def)
      then have "\<not> double_round x < - 5"
        using 3 q by simp
      then show ?thesis using 3 by simp
    next
      case False
      let ?q = "2 powi (binade x - 52) :: real"
      have qpos: "0 < ?q" by simp
      have "0 \<le> x / ?q" using False qpos by simp
      then have "0 \<le> round_half_even (x / ?q)"
        unfolding round_half_even_def Let_def by (auto simp: zero_le_floor) 
      then have "0 \<le> double_round x"
        using qpos by (simp add: double_round_def Let_def)
      then show ?thesis using False by simp
    qed
  qed
qed

text \<open>
  Whole numbers below \<open>2^53\<close> are doubles, and rounding the quotient of a double by 10
  does not change its integer part.
\<close>

lemma round_half_even_of_int: "round_half_even (of_int z) = z"
  by (simp add: round_half_even_def)

lemma round_half_even_ge_int:
  assumes "of_int K \<le> y"
  shows "K \<le> round_half_even y"
proof -
  have "K \<le> \<lfloor>y\<rfloor>" using assms by (simp add: le_floor_iff)
  then show ?thesis unfolding round_half_even_def Let_def by auto
qed

lemma pow2_scale:
  assumes "e \<le> 52"
  shows "(2::real) powi (e - 52) * 2 ^ nat (52 - e) = 1"
proof -
  have "(2::real) ^ nat (52 - e) = 2 powi (52 - e)"
    using assms by (simp add: power_int_def)
  moreover have "(2::real) powi (e - 52) * 2 powi (52 - e) = 2 powi ((e - 52) + (52 - e))"
    by (rule power_int_add[symmetric]) simp
  ultimately show ?thesis by simp
qed

lemma binade_le_52:
  assumes "\<bar>x\<bar> < 2 ^ 53"
  shows "binade x \<le> 52"
proof (cases "1 \<le> \<bar>x\<bar>")
  case True
  show ?thesis
  proof (rule ccontr)
    assume "\<not> binade x \<le> 52"
    then have "53 \<le> binade x" by simp
    then have "(2::real) powi 53 \<le> 2 powi (binade x)"
      by (intro power_int_increasing) simp_all
    then show False using binade_lower[OF True] assms by simp
  qed
next
  case False
  then show ?thesis
    using binade_down_le0[of 1022 "\<bar>x\<bar>"] by (simp add: binade_def)
qed

lemma binade_up_upper: "1 \<le> x \<Longrightarrow> x < 2 ^ Suc n \<Longrightarrow> x < 2 powi (binade_up n x + 1)"
proof (induction n arbitrary: x)
  case 0
  then show ?case by simp
next
  case (Suc n)
  show ?case
  proof (cases "x < 2")
    case True
    then show ?thesis by simp
  next
    case False
    then have a: "1 \<le> x / 2" by simp
    have b: "x / 2 < 2 ^ Suc n" using Suc.prems(2) by simp
    from Suc.IH[OF a b] have "x / 2 < 2 powi (binade_up n (x / 2) + 1)" .
    moreover have "(2::real) powi (1 + binade_up n (x / 2) + 1) = 2 * 2 powi (binade_up n (x / 2) + 1)"
      by (simp add: power_int_add)
    ultimately show ?thesis using False by simp
  qed
qed

lemma binade_upper: "1 \<le> \<bar>x\<bar> \<Longrightarrow> \<bar>x\<bar> < 2 ^ 1024 \<Longrightarrow> \<bar>x\<bar> < 2 powi (binade x + 1)"
  using binade_up_upper[of "\<bar>x\<bar>" 1023] by (simp add: binade_def)

lemma binade_up_3: "8 \<le> x \<Longrightarrow> x < 16 \<Longrightarrow> binade_up (Suc (Suc (Suc (Suc n)))) x = 3"
  by simp

lemma binade_3: "8 \<le> \<bar>x\<bar> \<Longrightarrow> \<bar>x\<bar> < 16 \<Longrightarrow> binade x = 3"
proof -
  assume a: "8 \<le> \<bar>x\<bar>" "\<bar>x\<bar> < 16"
  have "(1023::nat) = Suc (Suc (Suc (Suc 1019)))" by simp
  then show ?thesis
    using a binade_up_3[of "\<bar>x\<bar>" 1019] by (simp add: binade_def)
qed

lemma double_round_of_int:
  assumes "0 \<le> k" and "k < 2 ^ 53"
  shows "double_round (of_int k) = of_int k"
proof -
  let ?e = "binade (of_int k)"
  let ?q = "2 powi (?e - 52) :: real"
  let ?P = "2 ^ nat (52 - ?e) :: real"
  have "\<bar>of_int k :: real\<bar> < 2 ^ 53"
    using assms by simp
  then have e: "?e \<le> 52" by (rule binade_le_52)
  have qP: "?q * ?P = 1" using e by (rule pow2_scale)
  have qpos: "0 < ?q" by simp
  have "of_int k / ?q = of_int k * ?P"
    using qP qpos by (simp add: field_simps)
  also have "\<dots> = of_int (k * 2 ^ nat (52 - ?e))" by simp
  finally have "round_half_even (of_int k / ?q) = k * 2 ^ nat (52 - ?e)"
    by (simp only: round_half_even_of_int)
  then have "double_round (of_int k) = of_int (k * 2 ^ nat (52 - ?e)) * ?q"
    by (simp add: double_round_def Let_def)
  also have "\<dots> = of_int k * (?q * ?P)" by simp
  finally show ?thesis using qP by simp
qed

lemma double_gap:
  assumes dbl: "double_round t = t" and e: "binade t \<le> 52" and lt: "t < of_int N"
  shows "t \<le> of_int N - 2 powi (binade t - 52)"
proof -
  let ?q = "2 powi (binade t - 52) :: real"
  let ?P = "2 ^ nat (52 - binade t) :: real"
  let ?m = "round_half_even (t / ?q)"
  have qP: "?q * ?P = 1" using e by (rule pow2_scale)
  have qpos: "0 < ?q" by simp
  have Ppos: "0 < ?P" by simp
  have t: "t = of_int ?m * ?q"
    using dbl by (simp add: double_round_def Let_def)
  have "of_int ?m = of_int ?m * (?q * ?P)" using qP by simp
  also have "\<dots> = t * ?P" using t by (simp add: mult.assoc)
  also have "\<dots> < of_int N * ?P" using lt Ppos by simp
  also have "\<dots> = of_int (N * 2 ^ nat (52 - binade t))" by simp
  finally have "?m < N * 2 ^ nat (52 - binade t)" by (simp only: of_int_less_iff)
  then have "?m \<le> N * 2 ^ nat (52 - binade t) - 1" by simp
  then have "(of_int ?m :: real) \<le> of_int (N * 2 ^ nat (52 - binade t) - 1)"
    by (simp only: of_int_le_iff)
  then have "of_int ?m * ?q \<le> of_int (N * 2 ^ nat (52 - binade t) - 1) * ?q"
    using qpos by (simp only: mult_le_cancel_right_pos)
  also have "\<dots> = of_int N * (?q * ?P) - ?q" by (simp add: algebra_simps)
  finally show ?thesis using t qP by simp
qed

lemma double_round_ge_int:
  assumes e: "binade x \<le> 52" and le: "of_int n \<le> x"
  shows "of_int n \<le> double_round x"
proof -
  define q :: real where "q = 2 powi (binade x - 52)"
  define P :: real where "P = 2 ^ nat (52 - binade x)"
  define m where "m = round_half_even (x / q)"
  have qP: "q * P = 1" unfolding q_def P_def using e by (rule pow2_scale)
  have qpos: "0 < q" unfolding q_def by simp
  have Ppos: "0 < P" unfolding P_def by simp
  have dr: "double_round x = of_int m * q"
    by (simp add: double_round_def Let_def q_def m_def)
  have xq: "x / q = x * P"
    using qP qpos by (simp add: field_simps)
  have "of_int (n * 2 ^ nat (52 - binade x)) = of_int n * P" by (simp add: P_def)
  also have "\<dots> \<le> x * P" using le Ppos by simp
  finally have "of_int (n * 2 ^ nat (52 - binade x)) \<le> x * P" .
  then have "of_int (n * 2 ^ nat (52 - binade x)) \<le> x / q" by (simp only: xq)
  then have "n * 2 ^ nat (52 - binade x) \<le> m"
    unfolding m_def by (rule round_half_even_ge_int)
  then have "(of_int (n * 2 ^ nat (52 - binade x)) :: real) \<le> of_int m"
    by (simp only: of_int_le_iff)
  then have "of_int n * P \<le> of_int m" by (simp add: P_def)
  then have "of_int n * P * q \<le> of_int m * q"
    using qpos by (simp only: mult_le_cancel_right_pos)
  moreover have "of_int n * P * q = of_int n * (q * P)" by simp
  ultimately show ?thesis using dr qP by simp
qed

lemma double_round_le_half: "double_round x \<le> x + 2 powi (binade x - 52) / 2"
proof -
  define q :: real where "q = 2 powi (binade x - 52)"
  define m where "m = round_half_even (x / q)"
  have qpos: "0 < q" unfolding q_def by simp
  have dr: "double_round x = of_int m * q"
    by (simp add: double_round_def Let_def q_def m_def)
  have "of_int m \<le> x / q + 1 / 2"
    unfolding m_def by (rule round_half_even_bounds)
  then have "of_int m * q \<le> (x / q + 1 / 2) * q"
    using qpos by (simp only: mult_le_cancel_right_pos)
  also have "\<dots> = x + q / 2" using qpos by (simp add: field_simps)
  finally show ?thesis using dr by (simp add: q_def)
qed

lemma double_quotient_floor:
  assumes dbl: "double_round t = t" and nn: "0 \<le> t" and lt: "t < 2 ^ 53"
  shows "\<lfloor>double_round (t / 10)\<rfloor> = \<lfloor>t / 10\<rfloor>"
proof -
  define x where "x = t / 10"
  define n where "n = \<lfloor>x\<rfloor>"
  define q :: real where "q = 2 powi (binade x - 52)"
  have tx: "t = 10 * x" by (simp add: x_def)
  have xnn: "0 \<le> x" using nn by (simp add: x_def)
  have xb: "\<bar>x\<bar> < 2 ^ 53" using nn lt by (simp add: x_def)
  then have e: "binade x \<le> 52" by (rule binade_le_52)
  have qpos: "0 < q" by (simp add: q_def)
  have nx1: "of_int n \<le> x" unfolding n_def by (rule of_int_floor_le)
  have nx2: "x < of_int n + 1" unfolding n_def by linarith
  have lower: "of_int n \<le> double_round x" using e nx1 by (rule double_round_ge_int)
  have gap: "x + q / 2 < of_int n + 1"
  proof -
    consider "x < 8 / 10" | "8 / 10 \<le> x \<and> x < 1" | "1 \<le> x" by linarith
    then show ?thesis
    proof cases
      case 1
      have "0 \<le> n" unfolding n_def using xnn by simp
      then have n0: "(0::real) \<le> of_int n" by simp
      have "\<bar>x\<bar> < 1" using 1 xnn by simp
      then have "binade x \<le> 0"
        using binade_down_le0[of 1022 "\<bar>x\<bar>"] by (simp add: binade_def)
      then have "q \<le> 2 powi (0 - 52)"
        unfolding q_def by (intro power_int_increasing) simp_all
      then have "q \<le> 1 / 4" by simp
      then show ?thesis using 1 n0 by simp
    next
      case 2
      have "0 \<le> n" unfolding n_def using xnn by simp
      then have n0: "(0::real) \<le> of_int n" by simp
      have "\<bar>x\<bar> < 1" using 2 by simp
      then have "binade x \<le> 0"
        using binade_down_le0[of 1022 "\<bar>x\<bar>"] by (simp add: binade_def)
      then have q: "q \<le> 2 powi (0 - 52)"
        unfolding q_def by (intro power_int_increasing) simp_all
      have "8 \<le> \<bar>t\<bar>" "\<bar>t\<bar> < 16" using 2 tx by simp_all
      then have bt: "binade t = 3" by (rule binade_3)
      have b52: "binade t \<le> 52" using bt by simp
      have "t < of_int 10" using 2 tx by simp
      from double_gap[OF dbl b52 this] bt have g: "t \<le> 10 - 2 powi (3 - 52)" by simp
      have "(2::real) powi (3 - 52) = 8 * 2 powi (0 - 52)"
        by (simp add: power_int_diff)
      then have "10 * x \<le> 10 - 8 * 2 powi (0 - 52)" using g tx by simp
      moreover have "(0::real) < 2 powi (0 - 52)" by simp
      ultimately show ?thesis using q n0 by linarith
    next
      case 3
      then have x1: "1 \<le> \<bar>x\<bar>" by simp
      have t1: "1 \<le> \<bar>t\<bar>" using 3 tx by simp
      have "(2::real) ^ 53 \<le> 2 ^ 1024" by (intro power_increasing) simp_all
      then have "\<bar>t\<bar> < 2 ^ 1024" using lt nn by linarith
      from binade_upper[OF t1 this] have tu: "t < 2 powi (binade t + 1)" using nn by simp
      have xl: "2 powi (binade x) \<le> x" using binade_lower[OF x1] xnn by simp
      have "(2::real) powi (binade x + 3) = 2 powi (binade x) * 2 powi 3"
        by (rule power_int_add) simp
      then have "(2::real) powi (binade x + 3) = 8 * 2 powi (binade x)" by simp
      also have "\<dots> \<le> 8 * x" using xl by simp
      also have "\<dots> < t" using 3 tx by simp
      finally have lt2: "(2::real) powi (binade x + 3) < 2 powi (binade t + 1)" using tu by simp
      have "binade x + 3 < binade t + 1"
      proof (rule ccontr)
        assume "\<not> binade x + 3 < binade t + 1"
        then have "binade t + 1 \<le> binade x + 3" by simp
        then have "(2::real) powi (binade t + 1) \<le> 2 powi (binade x + 3)"
          by (intro power_int_increasing) simp_all
        then show False using lt2 by simp
      qed
      then have et: "(binade x - 52) + 3 \<le> binade t - 52" by simp
      have tb: "binade t \<le> 52" using nn lt by (intro binade_le_52) simp
      have "t < of_int (10 * (n + 1))" using nx2 tx by simp
      from double_gap[OF dbl tb this]
      have g: "t \<le> of_int (10 * (n + 1)) - 2 powi (binade t - 52)" .
      have "(2::real) powi ((binade x - 52) + 3) \<le> 2 powi (binade t - 52)"
        using et by (intro power_int_increasing) simp_all
      moreover have "(2::real) powi ((binade x - 52) + 3) = 2 powi (binade x - 52) * 2 powi 3"
        by (rule power_int_add) simp
      ultimately have q8: "8 * q \<le> 2 powi (binade t - 52)" by (simp add: q_def)
      have "(of_int (10 * (n + 1)) :: real) = 10 * of_int n + 10" by simp
      then have "10 * x \<le> 10 * of_int n + 10 - 8 * q" using g tx q8 by linarith
      then show ?thesis using qpos by linarith
    qed
  qed
  have "double_round x \<le> x + q / 2"
    unfolding q_def by (rule double_round_le_half)
  then have upper: "double_round x < of_int n + 1" using gap by linarith
  have "\<lfloor>double_round x\<rfloor> = n" using lower upper by (rule floor_unique)
  then show ?thesis by (simp add: x_def n_def)
qed

text \<open>
  For a position that is a double, not negative and below \<open>2^53\<close>, the segment the code
  computes is the exact \<open>\<lfloor>position / 10\<rfloor> * 10\<close>.
\<close>

lemma segment_exact:
  assumes dbl: "double_round t = t" and nn: "0 \<le> t" and lt: "t < 2 ^ 53"
  shows "double_mul (Math_floor (double_div t 10)) 10 = of_int (\<lfloor>t / 10\<rfloor> * 10)"
proof -
  have f: "\<lfloor>double_round (t / 10)\<rfloor> = \<lfloor>t / 10\<rfloor>"
    using assms by (rule double_quotient_floor)
  have a: "0 \<le> \<lfloor>t / 10\<rfloor> * 10" using nn by simp
  have "of_int (\<lfloor>t / 10\<rfloor> * 10) \<le> t" 
    using of_int_floor_le[of "t / 10"] by linarith
  then have "(of_int (\<lfloor>t / 10\<rfloor> * 10) :: real) < 2 ^ 53" using lt by simp
  then have b: "\<lfloor>t / 10\<rfloor> * 10 < 2 ^ 53" using of_int_less_iff[where ?'a = real] 
    by (metis of_int_numeral of_int_power)
  have "double_round (of_int (\<lfloor>t / 10\<rfloor> * 10)) = of_int (\<lfloor>t / 10\<rfloor> * 10)"
    using a b by (rule double_round_of_int)
  then show ?thesis using f by (simp add: double_mul_def double_div_def Math_floor_def)
qed

text \<open>
  C8, as stated: a new position more than 5 seconds behind the last one counts as a
  rewind. With the last position at the double nearest to 5.7 and the new one at the
  double nearest to 0.7, the new position is more than 5 seconds behind, by \<open>2^-52\<close>;
  the subtraction rounds the difference to exactly \<open>-5\<close>, which is not below the
  threshold, and no rewind is counted and no event emitted.
\<close>

theorem handleTimeUpdate_rounding_counterexample:
  "data_lastPosition (BehaviorTracker_data\<lparr>data_lastPosition := 6417629469002957 / 2 ^ 50\<rparr>)
       - 3152519739159347 / 2 ^ 52 > 5
   \<and> data_rewindCount (fst (handleTimeUpdate (3152519739159347 / 2 ^ 52)
         (BehaviorTracker_data\<lparr>data_lastPosition := 6417629469002957 / 2 ^ 50\<rparr>))) =
       data_rewindCount (BehaviorTracker_data\<lparr>data_lastPosition := 6417629469002957 / 2 ^ 50\<rparr>)
   \<and> snd (handleTimeUpdate (3152519739159347 / 2 ^ 52)
         (BehaviorTracker_data\<lparr>data_lastPosition := 6417629469002957 / 2 ^ 50\<rparr>)) = []"
  by (simp add: handleTimeUpdate_def BehaviorTracker_data_def Let_def double_sub_def
      double_round_lt_minus5)

text \<open>
  C8, amended. On a position update of a tracker whose threshold is the constructor's 5
  seconds: when the new position is more than \<open>5 + 2^-51\<close> seconds behind the last
  recorded one (5 seconds, up to the rounding of the double-precision subtraction), the
  rewind count goes up by one and one \<^verbatim>\<open>rewind\<close> event (from, to, new count) is emitted,
  and otherwise the count stays and nothing is emitted; in both cases, for a position
  that is a double, not negative and below \<open>2^53\<close>, the visit count of the segment
  \<open>\<lfloor>position / 10\<rfloor> * 10\<close> goes up by one and every other segment keeps its entry; the
  last position becomes the new position and the pause and speed counters stay.
\<close>

theorem handleTimeUpdate_effect:
  assumes "data_rewindThreshold d = 5"
  shows "(if data_lastPosition d - t > 5 + 1 / 2 ^ 51
          then data_rewindCount (fst (handleTimeUpdate t d)) = data_rewindCount d + 1
             \<and> snd (handleTimeUpdate t d) =
                 [Rewind (data_lastPosition d) t (data_rewindCount d + 1)]
          else data_rewindCount (fst (handleTimeUpdate t d)) = data_rewindCount d
             \<and> snd (handleTimeUpdate t d) = [])
       \<and> (double_round t = t \<and> 0 \<le> t \<and> t < 2 ^ 53 \<longrightarrow>
            data_segmentWatchTimes (fst (handleTimeUpdate t d)) =
              (data_segmentWatchTimes d)
                (of_int (\<lfloor>t / 10\<rfloor> * 10) \<mapsto> visit_count d (of_int (\<lfloor>t / 10\<rfloor> * 10)) + 1)
          \<and> visit_count (fst (handleTimeUpdate t d)) (of_int (\<lfloor>t / 10\<rfloor> * 10)) =
              visit_count d (of_int (\<lfloor>t / 10\<rfloor> * 10)) + 1)
       \<and> data_lastPosition (fst (handleTimeUpdate t d)) = t
       \<and> data_pauseCount (fst (handleTimeUpdate t d)) = data_pauseCount d
       \<and> data_playbackSpeedChanges (fst (handleTimeUpdate t d)) = data_playbackSpeedChanges d"
proof -
  have r: "double_sub t (data_lastPosition d) < - 5 \<longleftrightarrow> data_lastPosition d - t > 5 + 1 / 2 ^ 51"
    unfolding double_sub_def double_round_lt_minus5 by linarith
  have a: "if data_lastPosition d - t > 5 + 1 / 2 ^ 51
          then data_rewindCount (fst (handleTimeUpdate t d)) = data_rewindCount d + 1
             \<and> snd (handleTimeUpdate t d) =
                 [Rewind (data_lastPosition d) t (data_rewindCount d + 1)]
          else data_rewindCount (fst (handleTimeUpdate t d)) = data_rewindCount d
             \<and> snd (handleTimeUpdate t d) = []"
    using assms r by (simp add: handleTimeUpdate_def Let_def)
  have b: "double_round t = t \<and> 0 \<le> t \<and> t < 2 ^ 53 \<longrightarrow>
            data_segmentWatchTimes (fst (handleTimeUpdate t d)) =
              (data_segmentWatchTimes d)
                (of_int (\<lfloor>t / 10\<rfloor> * 10) \<mapsto> visit_count d (of_int (\<lfloor>t / 10\<rfloor> * 10)) + 1)
          \<and> visit_count (fst (handleTimeUpdate t d)) (of_int (\<lfloor>t / 10\<rfloor> * 10)) =
              visit_count d (of_int (\<lfloor>t / 10\<rfloor> * 10)) + 1"
  proof (intro impI)
    assume h: "double_round t = t \<and> 0 \<le> t \<and> t < 2 ^ 53"
    then have s: "double_mul (Math_floor (double_div t 10)) 10 = of_int (\<lfloor>t / 10\<rfloor> * 10)"
      by (intro segment_exact) simp_all
    show "data_segmentWatchTimes (fst (handleTimeUpdate t d)) =
              (data_segmentWatchTimes d)
                (of_int (\<lfloor>t / 10\<rfloor> * 10) \<mapsto> visit_count d (of_int (\<lfloor>t / 10\<rfloor> * 10)) + 1)
          \<and> visit_count (fst (handleTimeUpdate t d)) (of_int (\<lfloor>t / 10\<rfloor> * 10)) =
              visit_count d (of_int (\<lfloor>t / 10\<rfloor> * 10)) + 1"
      by (simp only: handleTimeUpdate_def Let_def s) (simp add: visit_count_def)
  qed
  have c: "data_lastPosition (fst (handleTimeUpdate t d)) = t"
    by (simp add: handleTimeUpdate_def Let_def)
  have d: "data_pauseCount (fst (handleTimeUpdate t d)) = data_pauseCount d"
    by (simp add: handleTimeUpdate_def Let_def)
  have e: "data_playbackSpeedChanges (fst (handleTimeUpdate t d)) = data_playbackSpeedChanges d"
    by (simp add: handleTimeUpdate_def Let_def)
  show ?thesis
    by (intro conjI) (rule a, rule b, rule c, rule d, rule e)
qed

theorem handleTimeUpdate_effect_witness:
  "data_rewindThreshold (BehaviorTracker_data\<lparr>data_lastPosition := 42\<rparr>) = 5
   \<and> double_round 30 = 30
   \<and> data_rewindCount (fst (handleTimeUpdate 30 (BehaviorTracker_data\<lparr>data_lastPosition := 42\<rparr>))) = 1
   \<and> snd (handleTimeUpdate 30 (BehaviorTracker_data\<lparr>data_lastPosition := 42\<rparr>)) = [Rewind 42 30 1]
   \<and> data_segmentWatchTimes (fst (handleTimeUpdate 30 (BehaviorTracker_data\<lparr>data_lastPosition := 42\<rparr>))) 30 = Some 1
   \<and> data_lastPosition (fst (handleTimeUpdate 30 (BehaviorTracker_data\<lparr>data_lastPosition := 42\<rparr>))) = 30"
proof -
  let ?d = "BehaviorTracker_data\<lparr>data_lastPosition := 42\<rparr>"
  have h: "data_rewindThreshold ?d = 5"
    by (simp add: BehaviorTracker_data_def)
  have dbl: "double_round 30 = 30"
    using double_round_of_int[of 30] by simp
  have r: "double_round 30 = 30 \<and> (0::real) \<le> 30 \<and> (30::real) < 2 ^ 53"
    using dbl by simp
  note e = handleTimeUpdate_effect [OF h, of 30]
  have a: "data_rewindCount (fst (handleTimeUpdate 30 ?d)) = 1
      \<and> snd (handleTimeUpdate 30 ?d) = [Rewind 42 30 1]"
    using e [THEN conjunct1] by (simp add: BehaviorTracker_data_def)
  have b: "data_segmentWatchTimes (fst (handleTimeUpdate 30 ?d)) 30 = Some 1"
    using e [THEN conjunct2, THEN conjunct1, THEN mp, OF r]
    by (simp add: BehaviorTracker_data_def visit_count_def)
  have c: "data_lastPosition (fst (handleTimeUpdate 30 ?d)) = 30"
    using e [THEN conjunct2, THEN conjunct2, THEN conjunct1] by simp
  show ?thesis
    using h dbl a b c by (intro conjI) simp_all
qed

subsection \<open>Settings store and router\<close>

lemma json_clone_id:
  "is_json v \<Longrightarrow> json_clone v = Some v"
  "are_json xs \<Longrightarrow> json_clone_elems xs = xs"
  "props_json ps \<Longrightarrow> json_clone_props ps = ps"
  by (induction v and xs and ps rule: is_json_are_json_props_json.induct) auto

lemma props_json_append: "props_json (ps @ qs) = (props_json ps \<and> props_json qs)"
  by (induction ps) auto

lemma props_json_replace_prop:
  "props_json ps \<Longrightarrow> is_json v \<Longrightarrow> props_json (replace_prop k v ps)"
  by (induction ps) auto

lemma props_json_put_index:
  "props_json ps \<Longrightarrow> is_json v \<Longrightarrow> props_json (put_index n k v ps)"
  by (induction ps) (auto split: option.splits)

lemma props_json_alist_put:
  "props_json ps \<Longrightarrow> is_json v \<Longrightarrow> props_json (alist_put k v ps)"
  by (auto simp: alist_put_def props_json_append props_json_replace_prop props_json_put_index
      split: option.splits)

lemma alist_put_Nil: "alist_put k v [] = [(k, v)]"
  by (simp add: alist_put_def split: option.splits)

lemma replace_prop_twice: "replace_prop k v (replace_prop k w ps) = replace_prop k v ps"
  by (induction ps) auto

lemma replace_prop_put_index:
  "map_of ps k = None \<Longrightarrow> replace_prop k v (put_index n k w ps) = put_index n k v ps"
  by (induction ps) (auto split: option.splits if_splits)

lemma replace_prop_snoc:
  "map_of ps k = None \<Longrightarrow> replace_prop k v (ps @ [(k, w)]) = ps @ [(k, v)]"
  by (induction ps) (auto split: if_splits)

lemma alist_put_twice: "alist_put k v (alist_put k w ps) = alist_put k v ps"
proof (cases "map_of ps k")
  case None
  have "map_of (alist_put k w ps) k \<noteq> None"
    by (simp add: map_of_alist_put)
  then have "alist_put k v (alist_put k w ps) = replace_prop k v (alist_put k w ps)"
    by (simp add: alist_put_def)
  then show ?thesis
    using None
    by (simp add: alist_put_def replace_prop_put_index replace_prop_snoc split: option.splits)
next
  case (Some u)
  then have "map_of (replace_prop k w ps) k \<noteq> None"
    by (simp add: map_of_replace_prop)
  then show ?thesis
    using Some by (simp add: alist_put_def replace_prop_twice)
qed

lemma storage_set_single:
  "is_json v \<Longrightarrow> storage_set [(key, v)] st = alist_put key v st"
  by (simp add: storage_set_def json_clone_id)

lemma getSetting_alist_put: "getSetting key (alist_put key v st) = v"
  by (simp add: getSetting_def storage_get_def map_of_alist_put obj_get_def)

text \<open>
  A type that is neither registered nor a name inherited from \<^verbatim>\<open>Object.prototype\<close> is
  answered with a failure reply that names the type, and the state is untouched.
\<close>

lemma unknown_type_fails:
  assumes "t \<notin> set registered_types" and "t \<notin> set Object_prototype_names"
  shows "onMessage_listener vlm run \<lparr>req_type = t, req_data = d\<rparr> s =
           (s, Failure (Error (''Unknown message type: '' @ t)))"
proof -
  have "t \<noteq> ''ANALYZE_FRAME''" "t \<noteq> ''TEST_GEMINI''"
    using assms(1) by (auto simp: registered_types_def)
  then show ?thesis
    using assms by (simp add: onMessage_listener_def handleMessage_def handlers_lookup_def)
qed

lemma unknown_op_fails:
  "onMessage_listener vlm run \<lparr>req_type = ''UNKNOWN_OP'', req_data = d\<rparr> s =
     (s, Failure (Error ''Unknown message type: UNKNOWN_OP''))"
  by (simp add: onMessage_listener_def handleMessage_def handlers_lookup_def
      registered_types_def Object_prototype_names_def)

text \<open>
  C5. A request whose type has no registered handler is to be answered with a failure
  reply. The type \<^verbatim>\<open>constructor\<close> has no registered handler, yet the lookup in the
  handler table finds the inherited \<^verbatim>\<open>Object\<close> function, the guard for a missing handler
  does not fire, and the listener answers with a success reply that echoes the data.
\<close>

theorem dispatch_inherited_type_succeeds:
  "''constructor'' \<notin> set registered_types
   \<and> onMessage_listener vlm run
       \<lparr>req_type = ''constructor'', req_data = JObj [(''a'', JNum 1)]\<rparr> s =
       (s, Success (JObj [(''a'', JNum 1)]))"
  by (simp add: onMessage_listener_def handleMessage_def handlers_lookup_def
      registered_types_def Object_prototype_names_def call_inherited_def)

text \<open>
  C9. An update of a key followed by a read of that key is to return the value written.
  For the key \<^verbatim>\<open>__proto__\<close> the update stores the value, but the read builds its reply
  with \<^verbatim>\<open>result[key] = ...\<close>, which for this name runs the inherited setter and creates no
  property: the reply is the empty object and the value written is not in it.
\<close>

theorem update_then_get_proto_key:
  "map_of (fst (handleUpdateSettings ''__proto__'' (JNum 1) [])) ''__proto__'' = Some (JNum 1)
   \<and> handleGetSettings (Some [''__proto__''])
       (fst (handleUpdateSettings ''__proto__'' (JNum 1) [])) = JObj []"
  by (simp add: handleUpdateSettings_def handleGetSettings_def updateSetting_def
      storage_set_def getSetting_def storage_get_def obj_get_def obj_assign_def
      reaches_proto_setter_def alist_put_Nil)

text \<open>
  For every other key, and every JSON value, in any store: the update answers
  \<^verbatim>\<open>{success: true}\<close>; the read of that key that follows returns an object with exactly
  that key, holding exactly the value written; the store holds the value written under
  the key, whatever it held before (a replacement, not a merge); and every other key
  keeps its value.
\<close>

lemma settings_read_after_write:
  assumes "key \<noteq> ''__proto__''" and "is_json v"
  shows "snd (handleUpdateSettings key v st) = JObj [(''success'', JBool True)]
       \<and> handleGetSettings (Some [key]) (fst (handleUpdateSettings key v st)) = JObj [(key, v)]
       \<and> map_of (fst (handleUpdateSettings key v st)) key = Some v
       \<and> (\<forall>k. k \<noteq> key \<longrightarrow> map_of (fst (handleUpdateSettings key v st)) k = map_of st k)"
  using assms
  by (simp add: handleUpdateSettings_def handleGetSettings_def updateSetting_def
      storage_set_single getSetting_alist_put obj_assign_def alist_put_Nil map_of_alist_put)

lemma settings_read_after_write_example:
  "handleGetSettings (Some [''features''])
     (fst (handleUpdateSettings ''features'' (JObj [(''focusMode'', JBool True)])
        [(''features'', JObj [(''focusMode'', JBool False), (''autoPause'', JBool True)])]))
   = JObj [(''features'', JObj [(''focusMode'', JBool True)])]"
  using settings_read_after_write [of "''features''" "JObj [(''focusMode'', JBool True)]"
      "[(''features'', JObj [(''focusMode'', JBool False), (''autoPause'', JBool True)])]"]
  by simp

text \<open>One toggle of a feature whose stored flag is the boolean \<open>b\<close>, or is absent.\<close>

lemma toggle_step:
  assumes "getSetting ''features'' st = JObj ps
           \<or> getSetting ''features'' st = JUndefined \<and> ps = []"
    and "props_json ps"
    and "map_of ps featureName = Some (JBool b)
         \<or> map_of ps featureName = None \<and> \<not> b \<and> featureName \<notin> set Object_prototype_names"
  shows "toggleFeature featureName st =
           Some (alist_put ''features'' (JObj (alist_put featureName (JBool (\<not> b)) ps)) st,
                 JBool (\<not> b))"
proof -
  have f: "js_or (getSetting ''features'' st) (JObj []) = JObj ps"
    using assms(1) by (auto simp: js_or_def)
  have g: "obj_get ps featureName = JBool b \<or> obj_get ps featureName = JUndefined \<and> \<not> b"
    using assms(3) by (auto simp: obj_get_def)
  have np: "featureName \<noteq> ''__proto__'' \<or> map_of ps featureName \<noteq> None"
    using assms(3) by (auto simp: Object_prototype_names_def)
  have s: "fst (obj_assign (ps, ObjectPrototype) featureName (JBool (\<not> b))) =
           alist_put featureName (JBool (\<not> b)) ps"
    using np by (auto simp: obj_assign_def reaches_proto_setter_def)
  have t: "js_truthy (obj_get ps featureName) = b"
    using g by auto
  have c: "is_json (JObj (alist_put featureName (JBool (\<not> b)) ps))"
    using assms(2) by (simp add: props_json_alist_put)
  have r: "obj_get (alist_put featureName (JBool (\<not> b)) ps) featureName = JBool (\<not> b)"
    by (simp add: obj_get_def map_of_alist_put)
  show ?thesis
    by (simp add: toggleFeature_def f s t r Let_def updateSetting_def storage_set_single[OF c])
qed

text \<open>
  C10. For a feature name absent from the stored map the feature read is to report
  \<^verbatim>\<open>true\<close> and the first toggle is to store \<^verbatim>\<open>true\<close>. The name \<^verbatim>\<open>constructor\<close> is absent
  from the stored map, yet \<^verbatim>\<open>features[featureName]\<close> finds the inherited \<^verbatim>\<open>Object\<close>
  function, which is truthy: the first toggle stores \<^verbatim>\<open>false\<close> and answers
  \<^verbatim>\<open>enabled: false\<close>, and the feature read returns the function, not \<^verbatim>\<open>true\<close>.
\<close>

theorem toggle_inherited_name_stores_false:
  "map_of [(''focusMode'', JBool False)] ''constructor'' = None
   \<and> handleToggleFeature ''constructor'' [(''features'', JObj [(''focusMode'', JBool False)])] =
     Some ([(''features'', JObj [(''focusMode'', JBool False), (''constructor'', JBool False)])],
           JObj [(''featureName'', JStr ''constructor''), (''enabled'', JBool False)])
   \<and> isFeatureEnabled ''constructor'' [(''features'', JObj [(''focusMode'', JBool False)])]
       = Some (JBuiltin ''constructor'')"
  by code_simp

text \<open>
  Let the stored \<^verbatim>\<open>features\<close> value be a plain JSON object, or be absent, and let the
  feature name be absent from it and not be one of the names inherited from
  \<^verbatim>\<open>Object.prototype\<close>. Then the feature read reports \<^verbatim>\<open>true\<close>; the first toggle stores
  \<^verbatim>\<open>true\<close> for the name and answers \<^verbatim>\<open>{featureName, enabled: true}\<close>; the feature read
  still reports \<^verbatim>\<open>true\<close>; and the second toggle stores \<^verbatim>\<open>false\<close> and answers
  \<^verbatim>\<open>{featureName, enabled: false}\<close>.
\<close>

lemma toggle_absent_feature:
  assumes stored: "map_of st ''features'' = Some (JObj ps)
                   \<or> map_of st ''features'' = None \<and> ps = []"
    and json: "props_json ps"
    and absent: "map_of ps featureName = None"
    and plain: "featureName \<notin> set Object_prototype_names"
  shows "isFeatureEnabled featureName st = Some (JBool True)
       \<and> handleToggleFeature featureName st =
           Some (alist_put ''features'' (JObj (alist_put featureName (JBool True) ps)) st,
                 JObj [(''featureName'', JStr featureName), (''enabled'', JBool True)])
       \<and> isFeatureEnabled featureName
           (alist_put ''features'' (JObj (alist_put featureName (JBool True) ps)) st) =
           Some (JBool True)
       \<and> handleToggleFeature featureName
           (alist_put ''features'' (JObj (alist_put featureName (JBool True) ps)) st) =
           Some (alist_put ''features'' (JObj (alist_put featureName (JBool False) ps)) st,
                 JObj [(''featureName'', JStr featureName), (''enabled'', JBool False)])"
proof -
  let ?ps1 = "alist_put featureName (JBool True) ps"
  let ?st1 = "alist_put ''features'' (JObj ?ps1) st"
  have g0: "getSetting ''features'' st = JObj ps
            \<or> getSetting ''features'' st = JUndefined \<and> ps = []"
    using stored
    by (auto simp: getSetting_def storage_get_def obj_get_def Object_prototype_names_def)
  have e0: "isFeatureEnabled featureName st = Some (JBool True)"
    using g0 absent plain by (auto simp: isFeatureEnabled_def obj_get_def js_nullish_def)
  have t0: "toggleFeature featureName st = Some (?st1, JBool True)"
    using toggle_step[OF g0 json, of featureName False] absent plain by simp
  have j1: "props_json ?ps1"
    using props_json_alist_put[OF json, of "JBool True" featureName] by simp
  have m1: "map_of ?ps1 featureName = Some (JBool True)"
    by (simp add: map_of_alist_put)
  have g1: "getSetting ''features'' ?st1 = JObj ?ps1"
    by (rule getSetting_alist_put)
  have o1: "obj_get ?ps1 featureName = JBool True"
    unfolding obj_get_def m1 by simp
  have e1: "isFeatureEnabled featureName ?st1 = Some (JBool True)"
    by (simp add: isFeatureEnabled_def g1 o1 js_nullish_def)
  have t1: "toggleFeature featureName ?st1 =
      Some (alist_put ''features'' (JObj (alist_put featureName (JBool False) ps)) st, JBool False)"
    using toggle_step[of ?st1 ?ps1 featureName True] g1 j1 m1
    by (simp add: alist_put_twice)
  show ?thesis
    by (simp add: e0 e1 handleToggleFeature_def t0 t1)
qed

lemma toggle_absent_feature_example:
  "isFeatureEnabled ''captions'' [(''features'', JObj [(''focusMode'', JBool False)])]
     = Some (JBool True)
   \<and> handleToggleFeature ''captions'' [(''features'', JObj [(''focusMode'', JBool False)])] =
     Some ([(''features'', JObj [(''focusMode'', JBool False), (''captions'', JBool True)])],
           JObj [(''featureName'', JStr ''captions''), (''enabled'', JBool True)])
   \<and> handleToggleFeature ''captions''
       [(''features'', JObj [(''focusMode'', JBool False), (''captions'', JBool True)])] =
     Some ([(''features'', JObj [(''focusMode'', JBool False), (''captions'', JBool False)])],
           JObj [(''featureName'', JStr ''captions''), (''enabled'', JBool False)])"
  by code_simp

subsection \<open>Provider text extraction\<close>










lemma indexOf_none: "indexOf s c = -1 \<longleftrightarrow> c \<notin> set s"
proof (induction s)
  case Nil
  then show ?case by simp
next
  case (Cons x s)
  have "indexOf s c \<ge> -1" for s
    by (induction s) (auto simp: Let_def)
  from this[of s] show ?case using Cons by (auto simp: Let_def)
qed



















subsection \<open>Credential check\<close>

text \<open>
  C7. When the stored Gemini API key is absent or is the placeholder, \<open>callLLM\<close> and
  \<open>callVLM\<close> reject with the error whose message says that the Gemini API key is not
  configured, and the only outside call made is the read of the key: no request is sent.
\<close>

theorem missing_key_fails_before_fetch:
  assumes "map_of st ''geminiApiKey'' = None
           \<or> map_of st ''geminiApiKey'' = Some (JStr GEMINI_API_KEY)"
  shows "callLLM P prompt st =
           Some (Inl (Error
                   ''Gemini API key not configured. Please set it in the extension popup.''),
                 [StorageGet [''geminiApiKey'']])
       \<and> callVLM P frameDataUrl prompt st =
           Some (Inl (Error
                   ''Gemini API key not configured. Please set it in the extension popup.''),
                 [StorageGet [''geminiApiKey'']])"
  using assms
  by (auto simp: callLLM_def callVLM_def storage_get_def obj_get_def
      Object_prototype_names_def Let_def)

theorem missing_key_fails_before_fetch_witness:
  "\<forall>P prompt frameDataUrl.
      callLLM P prompt [] =
        Some (Inl (Error
                ''Gemini API key not configured. Please set it in the extension popup.''),
              [StorageGet [''geminiApiKey'']])
    \<and> callVLM P frameDataUrl prompt [(''geminiApiKey'', JStr ''<YOUR_GEMINI_API_KEY_HERE>'')] =
        Some (Inl (Error
                ''Gemini API key not configured. Please set it in the extension popup.''),
              [StorageGet [''geminiApiKey'']])"
  using missing_key_fails_before_fetch [of "[]"]
    missing_key_fails_before_fetch [of "[(''geminiApiKey'', JStr ''<YOUR_GEMINI_API_KEY_HERE>'')]"]
  by (simp add: GEMINI_API_KEY_def)

subsection \<open>Message client\<close>

text \<open>
  C1. A pending call ignores a message whose request id differs from its own and stays
  pending; a message with its own request id settles it, resolved with the data of the
  message or rejected with its error; its promise changes only on a message that
  carries its request id; and when two calls of the same type with distinct request
  ids are pending and the two replies arrive in the opposite order, each shown to both
  listeners, each call resolves with the data of the reply that carries its own id.
\<close>

theorem port_reply_correlation:
  "(call_listening call \<and> msg_requestId m \<noteq> JStr (call_requestId call)
      \<longrightarrow> onMessage call (Some m) = call)
   \<and> (call_listening call \<and> msg_requestId m = JStr (call_requestId call)
      \<longrightarrow> call_settled (onMessage call (Some m)) =
            Some (if msg_success m then Resolved (msg_data m)
                  else Rejected (error_or (msg_error m) ''Unknown error from port''))
          \<and> \<not> call_listening (onMessage call (Some m)))
   \<and> (call_settled (onMessage call msg) \<noteq> call_settled call
      \<longrightarrow> (\<exists>m'. msg = Some m' \<and> msg_requestId m' = JStr (call_requestId call)))
   \<and> (id1 \<noteq> id2 \<and> msg_requestId m1 = JStr id1 \<and> msg_requestId m2 = JStr id2
        \<and> msg_success m1 \<and> msg_success m2
      \<longrightarrow> map call_settled
            (deliver (Some m1) (deliver (Some m2)
               [fst (sendViaPort t d1 id1), fst (sendViaPort t d2 id2)])) =
            [Some (Resolved (msg_data m1)), Some (Resolved (msg_data m2))])"
proof (intro conjI impI)
  assume "call_listening call \<and> msg_requestId m \<noteq> JStr (call_requestId call)"
  then show "onMessage call (Some m) = call"
    by (simp add: onMessage_def)
next
  assume a: "call_listening call \<and> msg_requestId m = JStr (call_requestId call)"
  then show "call_settled (onMessage call (Some m)) =
            Some (if msg_success m then Resolved (msg_data m)
                  else Rejected (error_or (msg_error m) ''Unknown error from port''))"
    by (simp add: onMessage_def)
  from a show "\<not> call_listening (onMessage call (Some m))"
    by (simp add: onMessage_def)
next
  assume "call_settled (onMessage call msg) \<noteq> call_settled call"
  then show "\<exists>m'. msg = Some m' \<and> msg_requestId m' = JStr (call_requestId call)"
    by (cases msg) (auto simp: onMessage_def split: if_splits)
next
  assume "id1 \<noteq> id2 \<and> msg_requestId m1 = JStr id1 \<and> msg_requestId m2 = JStr id2
        \<and> msg_success m1 \<and> msg_success m2"
  then show "map call_settled
            (deliver (Some m1) (deliver (Some m2)
               [fst (sendViaPort t d1 id1), fst (sendViaPort t d2 id2)])) =
            [Some (Resolved (msg_data m1)), Some (Resolved (msg_data m2))]"
    by (auto simp: deliver_def onMessage_def sendViaPort_def)
qed

theorem port_reply_correlation_witness:
  "map call_settled
     (deliver (Some \<lparr>msg_requestId = JStr ''17-1'', msg_success = True,
                     msg_data = JStr ''first'', msg_error = None\<rparr>)
        (deliver (Some \<lparr>msg_requestId = JStr ''17-2'', msg_success = True,
                        msg_data = JStr ''second'', msg_error = None\<rparr>)
           [fst (sendViaPort ''SIMPLIFY_TEXT'' (JStr ''a'') ''17-1''),
            fst (sendViaPort ''SIMPLIFY_TEXT'' (JStr ''b'') ''17-2'')])) =
     [Some (Resolved (JStr ''first'')), Some (Resolved (JStr ''second''))]
   \<and> onMessage (fst (sendViaPort ''SIMPLIFY_TEXT'' (JStr ''a'') ''17-1''))
        (Some \<lparr>msg_requestId = JStr ''17-2'', msg_success = True,
               msg_data = JStr ''second'', msg_error = None\<rparr>) =
       fst (sendViaPort ''SIMPLIFY_TEXT'' (JStr ''a'') ''17-1'')"
proof -
  let ?m1 = "\<lparr>msg_requestId = JStr ''17-1'', msg_success = True,
               msg_data = JStr ''first'', msg_error = None\<rparr>"
  let ?m2 = "\<lparr>msg_requestId = JStr ''17-2'', msg_success = True,
               msg_data = JStr ''second'', msg_error = None\<rparr>"
  let ?c1 = "fst (sendViaPort ''SIMPLIFY_TEXT'' (JStr ''a'') ''17-1'')"
  have h: "''17-1'' \<noteq> ''17-2'' \<and> msg_requestId ?m1 = JStr ''17-1''
      \<and> msg_requestId ?m2 = JStr ''17-2'' \<and> msg_success ?m1 \<and> msg_success ?m2"
    by simp
  have g: "call_listening ?c1 \<and> msg_requestId ?m2 \<noteq> JStr (call_requestId ?c1)"
    by (simp add: sendViaPort_def)
  note T = port_reply_correlation [of ?c1 ?m2 _ "''17-1''" "''17-2''" ?m1 ?m2
      "''SIMPLIFY_TEXT''" "JStr ''a''" "JStr ''b''"]
  have a: "map call_settled
     (deliver (Some ?m1) (deliver (Some ?m2)
        [?c1, fst (sendViaPort ''SIMPLIFY_TEXT'' (JStr ''b'') ''17-2'')])) =
     [Some (Resolved (JStr ''first'')), Some (Resolved (JStr ''second''))]"
    using T [THEN conjunct2, THEN conjunct2, THEN conjunct2, THEN mp, OF h] by simp
  have b: "onMessage ?c1 (Some ?m2) = ?c1"
    by (rule T [THEN conjunct1, THEN mp, OF g])
  show ?thesis
    by (intro conjI) (rule a, rule b)
qed

text \<open>One step of \<open>attempt\<close> after an error: another try, or the fallback.\<close>

lemma attempt_retry:
  "sends k = LastError msg \<Longrightarrow> transient msg \<Longrightarrow>
   attempt sends port k (Suc n) =
     (SendMessage # Wait (baseDelay * (maxRetries - Suc n + 1))
        # fst (attempt sends port (Suc k) n),
      snd (attempt sends port (Suc k) n))"
  by (subst attempt.simps) (simp add: Let_def)

lemma attempt_fallback:
  "sends k = LastError msg \<Longrightarrow> \<not> (transient msg \<and> n > 0) \<Longrightarrow>
   attempt sends port k n =
     ([SendMessage, ConnectPort],
      (case port of Resolved d \<Rightarrow> Resolved d | Rejected e \<Rightarrow> Rejected msg))"
  by (subst attempt.simps) auto

text \<open>Bounds that hold whatever the sends and the fallback do.\<close>

lemma attempt_bounds:
  "length (filter (\<lambda>a. a = SendMessage) (fst (attempt sends port k n))) \<le> n + 1
   \<and> length (filter (\<lambda>a. a = ConnectPort) (fst (attempt sends port k n))) \<le> 1
   \<and> length (filter (\<lambda>a. \<exists>ms. a = Wait ms) (fst (attempt sends port k n))) \<le> n"
proof (induction n arbitrary: k)
  case 0
  show ?case
    by (subst (1 2 3) attempt.simps) (simp split: send_outcome.splits)
next
  case (Suc n)
  show ?case
  proof (cases "sends k")
    case (LastError msg)
    show ?thesis
    proof (cases "transient msg")
      case True
      then show ?thesis
        using LastError Suc.IH[of "k + 1"]
        by (subst (1 2 3) attempt.simps) (simp add: Let_def)
    next
      case False
      then show ?thesis
        using LastError by (subst (1 2 3) attempt.simps) simp
    qed
  next
    case (Responded r)
    then show ?thesis by (subst (1 2 3) attempt.simps) simp
  qed
qed

text \<open>The waits of a run, in order: the base delay times 1, 2, 3, as far as the run goes.\<close>

lemma attempt_waits:
  "n \<le> maxRetries \<Longrightarrow>
   \<exists>j \<le> n. filter (\<lambda>a. \<exists>ms. a = Wait ms) (fst (attempt sends port k n)) =
     map (\<lambda>i. Wait (baseDelay * (maxRetries - n + 1 + i))) [0..<j]"
proof (induction n arbitrary: k)
  case 0
  show ?case
    by (subst attempt.simps) (simp split: send_outcome.splits)
next
  case (Suc n)
  show ?case
  proof (cases "sends k")
    case (LastError msg)
    show ?thesis
    proof (cases "transient msg")
      case True
      from Suc.prems have "n \<le> maxRetries" by simp
      from Suc.IH[OF this, of "Suc k"] obtain j where j: "j \<le> n"
        "filter (\<lambda>a. \<exists>ms. a = Wait ms) (fst (attempt sends port (Suc k) n)) =
           map (\<lambda>i. Wait (baseDelay * (maxRetries - n + 1 + i))) [0..<j]"
        by blast
      have e: "maxRetries - n + 1 + i = maxRetries - Suc n + 1 + Suc i" for i
        using Suc.prems by simp
      have "filter (\<lambda>a. \<exists>ms. a = Wait ms) (fst (attempt sends port k (Suc n))) =
          Wait (baseDelay * (maxRetries - Suc n + 1))
            # map (\<lambda>i. Wait (baseDelay * (maxRetries - n + 1 + i))) [0..<j]"
        using attempt_retry[where sends=sends and k=k and msg=msg and port=port and n=n] LastError True j(2) by simp
      also have "\<dots> = map (\<lambda>i. Wait (baseDelay * (maxRetries - Suc n + 1 + i))) [0..<Suc j]"
        unfolding e by (simp add: map_upt_Suc del: upt_Suc)
      finally show ?thesis
        using j(1) by (intro exI[of _ "Suc j"]) simp
    next
      case False
      then show ?thesis
        using attempt_fallback[where sends=sends and k=k and msg=msg and port=port and n="Suc n"] LastError by simp
    qed
  next
    case (Responded r)
    then show ?thesis by (subst attempt.simps) simp
  qed
qed

lemma sendViaMessage_waits:
  "\<exists>j \<le> 3. filter (\<lambda>a. \<exists>ms. a = Wait ms) (fst (sendViaMessage sends port)) =
     take j [Wait 150, Wait 300, Wait 450]"
proof -
  from attempt_waits[of 3 sends port 0] obtain j where j: "j \<le> 3"
    "filter (\<lambda>a. \<exists>ms. a = Wait ms) (fst (attempt sends port 0 3)) =
       map (\<lambda>i. Wait (baseDelay * (maxRetries - 3 + 1 + i))) [0..<j]"
    by (auto simp: maxRetries_def)
  from j(1) have "j = 0 \<or> j = 1 \<or> j = 2 \<or> j = 3" by arith
  then have "map (\<lambda>i. Wait (baseDelay * (maxRetries - 3 + 1 + i))) [0..<j] =
      take j [Wait 150, Wait 300, Wait 450]"
    by (auto simp: baseDelay_def maxRetries_def upt_rec)
  then show ?thesis
    using j by (auto simp: sendViaMessage_def maxRetries_def)
qed

text \<open>The transient test is a search for one of the two phrases, in lower case.\<close>

lemma starts_with_ci_iff:
  "starts_with_ci pat s \<longleftrightarrow> (\<exists>suf. map to_lower s = map to_lower pat @ suf)"
proof (induction pat s rule: starts_with_ci.induct)
  case (1 s)
  then show ?case by simp
next
  case (2 p ps)
  then show ?case by simp
next
  case (3 p ps x xs)
  then show ?case by auto
qed

lemma contains_ci_iff:
  "contains_ci pat s \<longleftrightarrow> (\<exists>pre suf. map to_lower s = pre @ map to_lower pat @ suf)"
proof (induction s)
  case Nil
  then show ?case by (cases pat) auto
next
  case (Cons x xs)
  show ?case
  proof
    assume "contains_ci pat (x # xs)"
    then consider "starts_with_ci pat (x # xs)" | "contains_ci pat xs" by auto
    then show "\<exists>pre suf. map to_lower (x # xs) = pre @ map to_lower pat @ suf"
    proof cases
      case 1
      then obtain suf where "map to_lower (x # xs) = map to_lower pat @ suf"
        using starts_with_ci_iff by blast
      then have "map to_lower (x # xs) = [] @ map to_lower pat @ suf" by simp
      then show ?thesis by blast
    next
      case 2
      then obtain pre suf where "map to_lower xs = pre @ map to_lower pat @ suf"
        using Cons.IH by blast
      then have "map to_lower (x # xs) = (to_lower x # pre) @ map to_lower pat @ suf" by simp
      then show ?thesis by blast
    qed
  next
    assume "\<exists>pre suf. map to_lower (x # xs) = pre @ map to_lower pat @ suf"
    then obtain pre suf where e: "map to_lower (x # xs) = pre @ map to_lower pat @ suf"
      by blast
    show "contains_ci pat (x # xs)"
    proof (cases pre)
      case Nil
      then have "starts_with_ci pat (x # xs)"
        using e starts_with_ci_iff by auto
      then show ?thesis by simp
    next
      case (Cons y ys)
      then have "map to_lower xs = ys @ map to_lower pat @ suf"
        using e by simp
      then have "contains_ci pat xs" using Cons.IH by blast
      then show ?thesis by simp
    qed
  qed
qed

text \<open>
  A run of \<open>attempt\<close>: \<open>j\<close> sends that end in a transient error, each followed by its
  wait, and then a send that is answered, or a send whose error ends the retrying.
\<close>

lemma retry_prefix_Suc:
  "Suc n \<le> maxRetries \<Longrightarrow>
   concat (map (\<lambda>i. [SendMessage, Wait (baseDelay * (maxRetries - Suc n + 1 + i))]) [0..<Suc j]) =
   SendMessage # Wait (baseDelay * (maxRetries - Suc n + 1))
     # concat (map (\<lambda>i. [SendMessage, Wait (baseDelay * (maxRetries - n + 1 + i))]) [0..<j])"
proof -
  assume a: "Suc n \<le> maxRetries"
  let ?F = "\<lambda>i. [SendMessage, Wait (baseDelay * (maxRetries - Suc n + 1 + i))]"
  let ?G = "\<lambda>i. [SendMessage, Wait (baseDelay * (maxRetries - n + 1 + i))]"
  have "maxRetries - Suc n + 1 + Suc i = maxRetries - n + 1 + i" for i
    using a by arith
  then have e: "?F (Suc i) = ?G i" for i
    by (simp only:)
  have "[0..<Suc j] = 0 # [Suc 0..<Suc j]"
    by (rule upt_conv_Cons) simp
  also have "[Suc 0..<Suc j] = map Suc [0..<j]"
    by (rule map_Suc_upt[symmetric])
  finally have u: "[0..<Suc j] = 0 # map Suc [0..<j]" .
  have "concat (map ?F [0..<Suc j]) = ?F 0 @ concat (map (\<lambda>i. ?F (Suc i)) [0..<j])"
    unfolding u by (simp only: list.map concat.simps map_map comp_def)
  also have "\<dots> = ?F 0 @ concat (map ?G [0..<j])"
    by (simp only: e)
  finally show ?thesis
    by simp
qed

lemma attempt_answered:
  assumes "j \<le> n" and "n \<le> maxRetries"
    and "\<forall>i<j. \<exists>m. sends (k + i) = LastError m \<and> transient m"
    and "sends (k + j) = Responded r"
  shows "attempt sends port k n =
    (concat (map (\<lambda>i. [SendMessage, Wait (baseDelay * (maxRetries - n + 1 + i))]) [0..<j])
       @ [SendMessage],
     (case r of
        None \<Rightarrow> Rejected ''Unknown error''
      | Some rp \<Rightarrow>
          if reply_success rp then Resolved (reply_data rp)
          else Rejected (error_or (reply_error rp) ''Unknown error'')))"
  using assms
proof (induction j arbitrary: k n)
  case 0
  then show ?case by (subst attempt.simps) simp
next
  case (Suc j)
  from Suc.prems(1) obtain n' where n: "n = Suc n'" by (cases n) auto
  from Suc.prems(3)[rule_format, of 0] obtain m where m: "sends k = LastError m" "transient m"
    by auto
  have h: "\<forall>i<j. \<exists>m. sends (Suc k + i) = LastError m \<and> transient m"
  proof (intro allI impI)
    fix i assume "i < j"
    then have "Suc i < Suc j" by simp
    from Suc.prems(3)[rule_format, OF this]
    show "\<exists>m. sends (Suc k + i) = LastError m \<and> transient m" by simp
  qed
  have r: "sends (Suc k + j) = Responded r"
    using Suc.prems(4) by simp
  have ih: "attempt sends port (Suc k) n' =
    (concat (map (\<lambda>i. [SendMessage, Wait (baseDelay * (maxRetries - n' + 1 + i))]) [0..<j])
       @ [SendMessage],
     (case r of
        None \<Rightarrow> Rejected ''Unknown error''
      | Some rp \<Rightarrow>
          if reply_success rp then Resolved (reply_data rp)
          else Rejected (error_or (reply_error rp) ''Unknown error'')))"
  proof (rule Suc.IH)
    show "j \<le> n'" using Suc.prems(1) n by simp
    show "n' \<le> maxRetries" using Suc.prems(2) n by simp
    show "\<forall>i<j. \<exists>m. sends (Suc k + i) = LastError m \<and> transient m" by (rule h)
    show "sends (Suc k + j) = Responded r" by (rule r)
  qed
  have le: "Suc n' \<le> maxRetries" using Suc.prems(2) n by simp
  have st: "attempt sends port k (Suc n') =
     (SendMessage # Wait (baseDelay * (maxRetries - Suc n' + 1))
        # fst (attempt sends port (Suc k) n'),
      snd (attempt sends port (Suc k) n'))"
    using attempt_retry[where sends=sends and k=k and msg=m and port=port and n=n'] m by blast
  show ?case
    unfolding n retry_prefix_Suc[OF le] st ih by simp
qed

lemma attempt_gives_up:
  assumes "j \<le> n" and "n \<le> maxRetries"
    and "\<forall>i<j. \<exists>m. sends (k + i) = LastError m \<and> transient m"
    and "sends (k + j) = LastError e" and "\<not> transient e \<or> j = n"
  shows "attempt sends port k n =
    (concat (map (\<lambda>i. [SendMessage, Wait (baseDelay * (maxRetries - n + 1 + i))]) [0..<j])
       @ [SendMessage, ConnectPort],
     (case port of Resolved d \<Rightarrow> Resolved d | Rejected e' \<Rightarrow> Rejected e))"
  using assms
proof (induction j arbitrary: k n)
  case 0
  then show ?case
    using attempt_fallback[where sends=sends and k=k and msg=e and port=port and n=n] by auto
next
  case (Suc j)
  from Suc.prems(1) obtain n' where n: "n = Suc n'" by (cases n) auto
  from Suc.prems(3)[rule_format, of 0] obtain m where m: "sends k = LastError m" "transient m"
    by auto
  have h: "\<forall>i<j. \<exists>m. sends (Suc k + i) = LastError m \<and> transient m"
  proof (intro allI impI)
    fix i assume "i < j"
    then have "Suc i < Suc j" by simp
    from Suc.prems(3)[rule_format, OF this]
    show "\<exists>m. sends (Suc k + i) = LastError m \<and> transient m" by simp
  qed
  have r: "sends (Suc k + j) = LastError e"
    using Suc.prems(4) by simp
  have c: "\<not> transient e \<or> j = n'"
    using Suc.prems(5) n by simp
  have ih: "attempt sends port (Suc k) n' =
    (concat (map (\<lambda>i. [SendMessage, Wait (baseDelay * (maxRetries - n' + 1 + i))]) [0..<j])
       @ [SendMessage, ConnectPort],
     (case port of Resolved d \<Rightarrow> Resolved d | Rejected e' \<Rightarrow> Rejected e))"
  proof (rule Suc.IH)
    show "j \<le> n'" using Suc.prems(1) n by simp
    show "n' \<le> maxRetries" using Suc.prems(2) n by simp
    show "\<forall>i<j. \<exists>m. sends (Suc k + i) = LastError m \<and> transient m" by (rule h)
    show "sends (Suc k + j) = LastError e" by (rule r)
    show "\<not> transient e \<or> j = n'" by (rule c)
  qed
  have le: "Suc n' \<le> maxRetries" using Suc.prems(2) n by simp
  have st: "attempt sends port k (Suc n') =
     (SendMessage # Wait (baseDelay * (maxRetries - Suc n' + 1))
        # fst (attempt sends port (Suc k) n'),
      snd (attempt sends port (Suc k) n'))"
    using attempt_retry[where sends=sends and k=k and msg=m and port=port and n=n'] m by blast
  show ?case
    unfolding n retry_prefix_Suc[OF le] st ih by simp
qed

text \<open>Every run is of one of these two kinds.\<close>

lemma run_kinds:
  fixes sends :: "nat \<Rightarrow> send_outcome"
  shows "\<exists>j\<le>3. (\<forall>i<j. \<exists>m. sends i = LastError m \<and> transient m)
         \<and> ((\<exists>r. sends j = Responded r)
            \<or> (\<exists>e. sends j = LastError e \<and> (\<not> transient e \<or> j = 3)))"
proof -
  define bad where "bad i \<longleftrightarrow> (\<exists>m. sends i = LastError m \<and> transient m)" for i
  have stop: "\<not> bad i \<Longrightarrow>
      (\<exists>r. sends i = Responded r) \<or> (\<exists>e. sends i = LastError e \<and> (\<not> transient e \<or> i = 3))" for i
    unfolding bad_def by (cases "sends i") auto
  have last: "bad 3 \<Longrightarrow>
      (\<exists>r. sends 3 = Responded r) \<or> (\<exists>e. sends 3 = LastError e \<and> (\<not> transient e \<or> (3::nat) = 3))"
    unfolding bad_def by auto
  consider "\<not> bad 0" | "bad 0" "\<not> bad 1" | "bad 0" "bad 1" "\<not> bad 2"
    | "bad 0" "bad 1" "bad 2"
    by blast
  then show ?thesis
  proof cases
    case 1
    then show ?thesis using stop[of 0] by (intro exI[of _ 0]) simp
  next
    case 2
    then have "\<forall>i<1. bad i" by simp
    then show ?thesis using stop[of 1] 2 unfolding bad_def by (intro exI[of _ 1]) simp
  next
    case 3
    have "\<forall>i<2. bad i"
    proof (intro allI impI)
      fix i :: nat assume "i < 2"
      then have "i = 0 \<or> i = 1" by arith
      then show "bad i" using 3 by auto
    qed
    then show ?thesis using stop[of 2] 3 unfolding bad_def by (intro exI[of _ 2]) simp
  next
    case 4
    have a: "\<forall>i<3. bad i"
    proof (intro allI impI)
      fix i :: nat assume "i < 3"
      then have "i = 0 \<or> i = 1 \<or> i = 2" by arith
      then show "bad i" using 4 by auto
    qed
    have "(\<exists>r. sends 3 = Responded r) \<or> (\<exists>e. sends 3 = LastError e \<and> (\<not> transient e \<or> (3::nat) = 3))"
      by (cases "bad 3") (use stop[of 3] last in auto)
    then show ?thesis using a unfolding bad_def by (intro exI[of _ 3]) simp
  qed
qed

lemma sendViaMessage_answered:
  assumes "j \<le> 3" and "\<forall>i<j. \<exists>m. sends i = LastError m \<and> transient m"
    and "sends j = Responded r"
  shows "sendViaMessage sends port =
    (concat (map (\<lambda>i. [SendMessage, Wait (150 * (i + 1))]) [0..<j]) @ [SendMessage],
     (case r of
        None \<Rightarrow> Rejected ''Unknown error''
      | Some rp \<Rightarrow>
          if reply_success rp then Resolved (reply_data rp)
          else Rejected (error_or (reply_error rp) ''Unknown error'')))"
  using attempt_answered[where sends=sends and k=0 and j=j and n=3 and r=r and port=port] assms
  by (simp add: sendViaMessage_def maxRetries_def baseDelay_def)

lemma sendViaMessage_gives_up:
  assumes "j \<le> 3" and "\<forall>i<j. \<exists>m. sends i = LastError m \<and> transient m"
    and "sends j = LastError e" and "\<not> transient e \<or> j = 3"
  shows "sendViaMessage sends port =
    (concat (map (\<lambda>i. [SendMessage, Wait (150 * (i + 1))]) [0..<j])
       @ [SendMessage, ConnectPort],
     (case port of Resolved d \<Rightarrow> Resolved d | Rejected e' \<Rightarrow> Rejected e))"
  using attempt_gives_up[where sends=sends and k=0 and j=j and n=3 and e=e and port=port] assms
  by (simp add: sendViaMessage_def maxRetries_def baseDelay_def)

lemma all_transient_run:
  assumes a: "sends 0 = LastError e0 \<and> transient e0 \<and> sends 1 = LastError e1 \<and> transient e1
      \<and> sends 2 = LastError e2 \<and> transient e2 \<and> sends 3 = LastError e3 \<and> transient e3"
  shows "sendViaMessage sends port =
            ([SendMessage, Wait 150, SendMessage, Wait 300, SendMessage, Wait 450,
              SendMessage, ConnectPort],
             (case port of Resolved d \<Rightarrow> Resolved d | Rejected e \<Rightarrow> Rejected e3))"
proof -
  let ?r = "case port of Resolved d \<Rightarrow> Resolved d | Rejected e \<Rightarrow> Rejected e3"
  have o1: "sends (Suc 0) = LastError e1"
    using a by simp
  have o2: "sends (Suc (Suc 0)) = LastError e2"
    using a by (simp add: numeral_2_eq_2)
  have o3: "sends (Suc (Suc (Suc 0))) = LastError e3"
    using a by (simp add: numeral_3_eq_3)
  have s3: "attempt sends port (Suc (Suc (Suc 0))) 0 = ([SendMessage, ConnectPort], ?r)"
    using attempt_fallback[where sends=sends and k="Suc (Suc (Suc 0))" and msg=e3 and n=0
        and port=port] o3
    by simp
  have s2: "attempt sends port (Suc (Suc 0)) (Suc 0) =
      ([SendMessage, Wait 450, SendMessage, ConnectPort], ?r)"
    using attempt_retry[where sends=sends and k="Suc (Suc 0)" and msg=e2 and n=0 and port=port]
      o2 a s3
    by (simp add: baseDelay_def maxRetries_def)
  have s1: "attempt sends port (Suc 0) (Suc (Suc 0)) =
      ([SendMessage, Wait 300, SendMessage, Wait 450, SendMessage, ConnectPort], ?r)"
    using attempt_retry[where sends=sends and k="Suc 0" and msg=e1 and n="Suc 0" and port=port]
      o1 a s2
    by (simp add: baseDelay_def maxRetries_def)
  have s0: "attempt sends port 0 (Suc (Suc (Suc 0))) =
      ([SendMessage, Wait 150, SendMessage, Wait 300, SendMessage, Wait 450,
        SendMessage, ConnectPort], ?r)"
    using attempt_retry[where sends=sends and k=0 and msg=e0 and n="Suc (Suc 0)" and port=port]
      a s1
    by (simp add: baseDelay_def maxRetries_def)
  show ?thesis
    using s0 by (simp add: sendViaMessage_def maxRetries_def numeral_3_eq_3)
qed

lemma non_transient_first:
  assumes "sends 0 = LastError e \<and> \<not> transient e"
  shows "sendViaMessage sends port =
            ([SendMessage, ConnectPort],
             (case port of Resolved d \<Rightarrow> Resolved d | Rejected e' \<Rightarrow> Rejected e))"
  using assms unfolding sendViaMessage_def by (subst attempt.simps) simp

lemma transient_iff:
  "transient msg \<longleftrightarrow>
     (\<exists>pre suf. map to_lower msg = pre @ map to_lower ''Extension context invalidated'' @ suf)
     \<or> (\<exists>pre suf. map to_lower msg =
          pre @ map to_lower ''The message port closed before a response was received'' @ suf)"
  unfolding transient_def contains_ci_iff ..

lemma transient_examples:
  "transient ''Extension context invalidated.''"
  "transient ''EXTENSION CONTEXT INVALIDATED''"
  "transient ''The message port closed before a response was received.''"
  "\<not> transient ''Could not establish connection. Receiving end does not exist.''"
  by code_simp+

text \<open>
  C2. Every call runs in one of two ways. Some number \<open>j\<close> of sends, at most three, end
  in a transient error, each followed by a wait of 150 ms times its number (150, 300,
  450); then either the next send is answered, and the promise settles from the answer
  with no use of the port, or the next send ends in an error that is not transient, or
  is the fourth send and ends in any error, and the port is tried once, the promise
  settling as the port does when that resolves and otherwise rejecting with the message
  of that last error. In particular four transient errors give three waits and then
  the port, and an error that is not transient on the first send gives no wait and no
  second send. There are never more than four sends, three waits and one use of the
  port. An error is transient when its message contains, in any mix of upper and lower
  case, the phrase of the invalidated extension context or that of the message port
  closed before a response.
\<close>

theorem transient_retry_policy:
  fixes sends :: "nat \<Rightarrow> send_outcome"
  shows
  "(j \<le> 3 \<and> (\<forall>i<j. \<exists>m. sends i = LastError m \<and> transient m) \<and> sends j = Responded r
      \<longrightarrow> sendViaMessage sends port =
            (concat (map (\<lambda>i. [SendMessage, Wait (150 * (i + 1))]) [0..<j]) @ [SendMessage],
             (case r of
                None \<Rightarrow> Rejected ''Unknown error''
              | Some rp \<Rightarrow>
                  if reply_success rp then Resolved (reply_data rp)
                  else Rejected (error_or (reply_error rp) ''Unknown error''))))
   \<and> (j \<le> 3 \<and> (\<forall>i<j. \<exists>m. sends i = LastError m \<and> transient m)
        \<and> sends j = LastError e \<and> (\<not> transient e \<or> j = 3)
      \<longrightarrow> sendViaMessage sends port =
            (concat (map (\<lambda>i. [SendMessage, Wait (150 * (i + 1))]) [0..<j])
               @ [SendMessage, ConnectPort],
             (case port of Resolved d \<Rightarrow> Resolved d | Rejected e' \<Rightarrow> Rejected e)))
   \<and> (\<exists>j\<le>3. (\<forall>i<j. \<exists>m. sends i = LastError m \<and> transient m)
         \<and> ((\<exists>r. sends j = Responded r)
            \<or> (\<exists>e. sends j = LastError e \<and> (\<not> transient e \<or> j = 3))))
   \<and> (sends 0 = LastError e0 \<and> transient e0 \<and> sends 1 = LastError e1 \<and> transient e1
        \<and> sends 2 = LastError e2 \<and> transient e2 \<and> sends 3 = LastError e3 \<and> transient e3
      \<longrightarrow> sendViaMessage sends port =
            ([SendMessage, Wait 150, SendMessage, Wait 300, SendMessage, Wait 450,
              SendMessage, ConnectPort],
             (case port of Resolved d \<Rightarrow> Resolved d | Rejected e \<Rightarrow> Rejected e3)))
   \<and> (sends 0 = LastError e \<and> \<not> transient e
      \<longrightarrow> sendViaMessage sends port =
            ([SendMessage, ConnectPort],
             (case port of Resolved d \<Rightarrow> Resolved d | Rejected e' \<Rightarrow> Rejected e)))
   \<and> length (filter (\<lambda>a. a = SendMessage) (fst (sendViaMessage sends port))) \<le> 4
   \<and> length (filter (\<lambda>a. \<exists>ms. a = Wait ms) (fst (sendViaMessage sends port))) \<le> 3
   \<and> length (filter (\<lambda>a. a = ConnectPort) (fst (sendViaMessage sends port))) \<le> 1
   \<and> (\<exists>j \<le> 3. filter (\<lambda>a. \<exists>ms. a = Wait ms) (fst (sendViaMessage sends port)) =
         take j [Wait 150, Wait 300, Wait 450])
   \<and> (transient msg \<longleftrightarrow>
        (\<exists>pre suf. map to_lower msg = pre @ map to_lower ''Extension context invalidated'' @ suf)
        \<or> (\<exists>pre suf. map to_lower msg =
             pre @ map to_lower ''The message port closed before a response was received'' @ suf))
   \<and> transient ''Extension context invalidated.''
   \<and> transient ''EXTENSION CONTEXT INVALIDATED''
   \<and> transient ''The message port closed before a response was received.''
   \<and> \<not> transient ''Could not establish connection. Receiving end does not exist.''"
proof -
  have A: "j \<le> 3 \<and> (\<forall>i<j. \<exists>m. sends i = LastError m \<and> transient m) \<and> sends j = Responded r
      \<longrightarrow> sendViaMessage sends port =
            (concat (map (\<lambda>i. [SendMessage, Wait (150 * (i + 1))]) [0..<j]) @ [SendMessage],
             (case r of
                None \<Rightarrow> Rejected ''Unknown error''
              | Some rp \<Rightarrow>
                  if reply_success rp then Resolved (reply_data rp)
                  else Rejected (error_or (reply_error rp) ''Unknown error'')))"
    using sendViaMessage_answered[of j sends r port] by blast
  have B: "j \<le> 3 \<and> (\<forall>i<j. \<exists>m. sends i = LastError m \<and> transient m)
        \<and> sends j = LastError e \<and> (\<not> transient e \<or> j = 3)
      \<longrightarrow> sendViaMessage sends port =
            (concat (map (\<lambda>i. [SendMessage, Wait (150 * (i + 1))]) [0..<j])
               @ [SendMessage, ConnectPort],
             (case port of Resolved d \<Rightarrow> Resolved d | Rejected e' \<Rightarrow> Rejected e))"
    using sendViaMessage_gives_up[of j sends e port] by blast
  have C: "sends 0 = LastError e0 \<and> transient e0 \<and> sends 1 = LastError e1 \<and> transient e1
        \<and> sends 2 = LastError e2 \<and> transient e2 \<and> sends 3 = LastError e3 \<and> transient e3
      \<longrightarrow> sendViaMessage sends port =
            ([SendMessage, Wait 150, SendMessage, Wait 300, SendMessage, Wait 450,
              SendMessage, ConnectPort],
             (case port of Resolved d \<Rightarrow> Resolved d | Rejected e \<Rightarrow> Rejected e3))"
    using all_transient_run[of sends e0 e1 e2 e3 port] by blast
  have D: "sends 0 = LastError e \<and> \<not> transient e
      \<longrightarrow> sendViaMessage sends port =
            ([SendMessage, ConnectPort],
             (case port of Resolved d \<Rightarrow> Resolved d | Rejected e' \<Rightarrow> Rejected e))"
    using non_transient_first[of sends e port] by blast
  have b1: "length (filter (\<lambda>a. a = SendMessage) (fst (sendViaMessage sends port))) \<le> 4"
    using attempt_bounds[of sends port 0 3] by (simp add: sendViaMessage_def maxRetries_def)
  have b2: "length (filter (\<lambda>a. \<exists>ms. a = Wait ms) (fst (sendViaMessage sends port))) \<le> 3"
    using attempt_bounds[of sends port 0 3] by (simp add: sendViaMessage_def maxRetries_def)
  have b3: "length (filter (\<lambda>a. a = ConnectPort) (fst (sendViaMessage sends port))) \<le> 1"
    using attempt_bounds[of sends port 0 3] by (simp add: sendViaMessage_def maxRetries_def)
  show ?thesis
    by (intro conjI)
      (rule A, rule B, rule run_kinds, rule C, rule D, rule b1, rule b2, rule b3,
        rule sendViaMessage_waits, rule transient_iff, (rule transient_examples)+)
qed

theorem transient_retry_policy_witness:
  "sendViaMessage
      (\<lambda>i. if i = 0 then LastError ''EXTENSION CONTEXT INVALIDATED''
           else if i = 1 then LastError ''The message port closed before a response was received.''
           else Responded (Some \<lparr>reply_success = True, reply_data = JNum 7, reply_error = None\<rparr>))
      (Rejected ''Timeout waiting for port response'') =
     ([SendMessage, Wait 150, SendMessage, Wait 300, SendMessage], Resolved (JNum 7))
   \<and> sendViaMessage
      (\<lambda>i. if i = 0 then LastError ''Extension context invalidated.''
           else LastError ''Could not establish connection. Receiving end does not exist.'')
      (Resolved (JNum 1)) =
     ([SendMessage, Wait 150, SendMessage, ConnectPort], Resolved (JNum 1))
   \<and> sendViaMessage (\<lambda>k. LastError ''The message port closed before a response was received.'')
       (Rejected ''Timeout waiting for port response'') =
     ([SendMessage, Wait 150, SendMessage, Wait 300, SendMessage, Wait 450,
       SendMessage, ConnectPort],
      Rejected ''The message port closed before a response was received.'')
   \<and> sendViaMessage
       (\<lambda>k. LastError ''Could not establish connection. Receiving end does not exist.'')
       (Resolved (JNum 1)) =
     ([SendMessage, ConnectPort], Resolved (JNum 1))"
proof -
  let ?u = "''EXTENSION CONTEXT INVALIDATED''"
  let ?c = "''Extension context invalidated.''"
  let ?e = "''The message port closed before a response was received.''"
  let ?n = "''Could not establish connection. Receiving end does not exist.''"
  let ?rp = "\<lparr>reply_success = True, reply_data = JNum 7, reply_error = None\<rparr>"
  let ?sA = "\<lambda>i::nat. if i = 0 then LastError ?u else if i = 1 then LastError ?e
      else Responded (Some ?rp)"
  let ?sB = "\<lambda>i::nat. if i = 0 then LastError ?c else LastError ?n"
  let ?pt = "Rejected ''Timeout waiting for port response''"
  have tu: "transient ?u"
    by code_simp
  have tc: "transient ?c"
    by code_simp
  have t: "transient ?e"
    by code_simp
  have n: "\<not> transient ?n"
    by code_simp
  have tr1: "concat (map (\<lambda>i. [SendMessage, Wait (150 * (i + 1))]) [0..<1]) =
      [SendMessage, Wait 150]"
    by simp
  have tr2: "concat (map (\<lambda>i. [SendMessage, Wait (150 * (i + 1))]) [0..<2]) =
      [SendMessage, Wait 150, SendMessage, Wait 300]"
    by (simp add: upt_conv_Cons)
  have qA: "\<forall>i<2. \<exists>m. ?sA i = LastError m \<and> transient m"
  proof (intro allI impI)
    fix i :: nat
    assume "i < 2"
    then have "i = 0 \<or> i = 1"
      by arith
    then show "\<exists>m. ?sA i = LastError m \<and> transient m"
      using tu t by auto
  qed
  have hA: "(2::nat) \<le> 3 \<and> (\<forall>i<2. \<exists>m. ?sA i = LastError m \<and> transient m)
      \<and> ?sA 2 = Responded (Some ?rp)"
    using qA by simp
  have qB: "\<forall>i<1. \<exists>m. ?sB i = LastError m \<and> transient m"
    using tc by simp
  have hB: "(1::nat) \<le> 3 \<and> (\<forall>i<1. \<exists>m. ?sB i = LastError m \<and> transient m)
      \<and> ?sB 1 = LastError ?n \<and> (\<not> transient ?n \<or> (1::nat) = 3)"
    using qB n by simp
  have h1: "(\<lambda>k::nat. LastError ?e) 0 = LastError ?e \<and> transient ?e
      \<and> (\<lambda>k::nat. LastError ?e) 1 = LastError ?e \<and> transient ?e
      \<and> (\<lambda>k::nat. LastError ?e) 2 = LastError ?e \<and> transient ?e
      \<and> (\<lambda>k::nat. LastError ?e) 3 = LastError ?e \<and> transient ?e"
    using t by simp
  have h2: "(\<lambda>k::nat. LastError ?n) 0 = LastError ?n \<and> \<not> transient ?n"
    using n by simp
  have a: "sendViaMessage ?sA ?pt =
      ([SendMessage, Wait 150, SendMessage, Wait 300, SendMessage], Resolved (JNum 7))"
    using transient_retry_policy [where sends = ?sA and j = 2 and r = "Some ?rp"
        and port = ?pt, THEN conjunct1, THEN mp, OF hA] tr2
    by simp
  have b: "sendViaMessage ?sB (Resolved (JNum 1)) =
      ([SendMessage, Wait 150, SendMessage, ConnectPort], Resolved (JNum 1))"
    using transient_retry_policy [where sends = ?sB and j = 1 and e = ?n
        and port = "Resolved (JNum 1)", THEN conjunct2, THEN conjunct1, THEN mp, OF hB] tr1
    by simp
  have c: "sendViaMessage (\<lambda>k. LastError ?e) ?pt =
     ([SendMessage, Wait 150, SendMessage, Wait 300, SendMessage, Wait 450,
       SendMessage, ConnectPort], Rejected ?e)"
    using transient_retry_policy [where sends = "\<lambda>k. LastError ?e" and ?e0.0 = ?e
        and ?e1.0 = ?e and ?e2.0 = ?e and ?e3.0 = ?e and port = ?pt,
        THEN conjunct2, THEN conjunct2, THEN conjunct2, THEN conjunct1, THEN mp, OF h1]
    by simp
  have d: "sendViaMessage (\<lambda>k. LastError ?n) (Resolved (JNum 1)) =
     ([SendMessage, ConnectPort], Resolved (JNum 1))"
    using transient_retry_policy [where sends = "\<lambda>k. LastError ?n" and e = ?n
        and port = "Resolved (JNum 1)",
        THEN conjunct2, THEN conjunct2, THEN conjunct2, THEN conjunct2, THEN conjunct1,
        THEN mp, OF h2]
    by simp
  show ?thesis
    by (intro conjI) (rule a, rule b, rule c, rule d)
qed

end
